theory Spec2Isabelle
  imports Main "HOL-Library.Word" "HOL-Library.Multiset"
begin

section \<open>Texture parameters (gl_engine/Texture.cpp)\<close>

text \<open>
  Modelled from the spec: the enumerations \<open>Texture::Format\<close> and \<open>Texture::Filter\<close> are
  declared in Texture.h, which is not among the sources. Texture.cpp names the formats
  RGBA8, CompressedRGBA8, RG8, R16UI and Invalid and the filters Nearest and MipMapLinear;
  Linear stands for the remaining (non-mip, non-nearest) filter.
\<close>

datatype Format = RGBA8 | CompressedRGBA8 | RG8 | R16UI | Invalid

datatype Filter = Nearest | Linear | MipMapLinear

datatype error = AssertionFailed | UndefinedConversion

record Texture =
  m_format :: Format
  m_min_filter :: Filter
  m_mag_filter :: Filter

text \<open>
  \<open>Texture::setParams\<close>: three assertions in the source's order, then the two filters
  are stored. The OpenGL calls that follow have no effect on the fields and are left out.
  A failed assertion aborts the call: it is the error value.
\<close>

definition setParams :: "Filter \<Rightarrow> Filter \<Rightarrow> Texture \<Rightarrow> error + Texture" where
  "setParams min_filter mag_filter t =
     (if \<not> (mag_filter \<noteq> MipMapLinear) then Inl AssertionFailed
      else if \<not> (m_format t \<noteq> CompressedRGBA8 \<or> min_filter \<noteq> MipMapLinear) then Inl AssertionFailed
      else if \<not> (m_format t \<noteq> R16UI \<or> (min_filter = Nearest \<and> mag_filter = Nearest))
        then Inl AssertionFailed
      else Inr (t\<lparr>m_min_filter := min_filter, m_mag_filter := mag_filter\<rparr>))"

text \<open>
  The compatibility conditions as the specification words them: a R16UI texture gets
  nearest min and mag filtering, and mip-map filtering (as min or as mag filter) is asked
  only for a format other than CompressedRGBA8.
\<close>

definition spec_compatible :: "Format \<Rightarrow> Filter \<Rightarrow> Filter \<Rightarrow> bool" where
  "spec_compatible fmt min_filter mag_filter =
     ((fmt \<noteq> R16UI \<or> (min_filter = Nearest \<and> mag_filter = Nearest)) \<and>
      (fmt \<noteq> CompressedRGBA8 \<or> (min_filter \<noteq> MipMapLinear \<and> mag_filter \<noteq> MipMapLinear)))"

section \<open>Tile identifiers, tile quads and the bounded cache\<close>

text \<open>
  Modelled from the spec: \<open>tile::Id\<close> is declared outside the sources. The specification
  gives it as the triple (zoom: u8, x: u32, y: u32), with the root (0,0,0) and the four
  children of a tile at zoom+1, addressed (2x,2y), (2x+1,2y), (2x,2y+1), (2x+1,2y+1), in
  this fixed order. The arithmetic is the machine's: it wraps.
\<close>

datatype Id = Id (zoom_level: "8 word") (coords_x: "32 word") (coords_y: "32 word")

definition children :: "Id \<Rightarrow> Id list" where
  "children v =
     [Id (zoom_level v + 1) (2 * coords_x v) (2 * coords_y v),
      Id (zoom_level v + 1) (2 * coords_x v + 1) (2 * coords_y v),
      Id (zoom_level v + 1) (2 * coords_x v) (2 * coords_y v + 1),
      Id (zoom_level v + 1) (2 * coords_x v + 1) (2 * coords_y v + 1)]"

type_synonym QByteArray = "8 word list"

text \<open>
  Modelled from the spec: the tile types (tile_types.h is not among the sources). A tile
  payload has an id and two optional byte blobs; a tile quad has the parent's id, the
  number of children and the children (an array of four in the program, of which the
  first \<open>n_tiles\<close> are filled); a GPU tile has the id, the world bounds, the decoded ortho
  image and the 16-bit height raster; the GPU shadow cache holds the id only.
  In a \<open>GpuTileQuad\<close> a slot that the scheduler has not written is \<open>None\<close>.
\<close>

record LayeredTile =
  tile_id :: Id
  ortho :: "QByteArray option"
  height :: "QByteArray option"

record TileQuad =
  quad_id :: Id
  n_tiles :: nat
  tiles :: "LayeredTile list"

record ('aabb, 'img, 'raster) GpuLayeredTile =
  gpu_tile_id :: Id
  bounds :: 'aabb
  gpu_ortho :: 'img
  gpu_height :: 'raster

record ('aabb, 'img, 'raster) GpuTileQuad =
  gpu_quad_id :: Id
  gpu_tiles :: "('aabb, 'img, 'raster) GpuLayeredTile option list"

record GpuCacheInfo =
  info_id :: Id

text \<open>
  Modelled from the spec: the class \<open>Cache<T>\<close> (Cache.h is not among the sources). It is
  an insertion-ordered mapping from tile id to T with a \<open>useful\<close> flag per entry and a
  capacity: the list of entries, oldest insertion first. The id of an entry is the id of
  its data (\<open>ident\<close>, the member \<open>id\<close> of T).
\<close>

record 'a CacheObject =
  obj_data :: 'a
  obj_useful :: bool

record 'a Cache =
  m_data :: "'a CacheObject list"
  m_capacity :: nat

text \<open>
  Modelled from the spec: \<open>insert(entries)\<close> adds or replaces, and the new entry is marked
  useful. A replaced entry becomes the most recently inserted one.
\<close>

definition insert_one :: "('a \<Rightarrow> Id) \<Rightarrow> 'a \<Rightarrow> 'a CacheObject list \<Rightarrow> 'a CacheObject list" where
  "insert_one ident x es =
     filter (\<lambda>e. ident (obj_data e) \<noteq> ident x) es @ [\<lparr>obj_data = x, obj_useful = True\<rparr>]"

definition cache_insert :: "('a \<Rightarrow> Id) \<Rightarrow> 'a list \<Rightarrow> 'a Cache \<Rightarrow> 'a Cache" where
  "cache_insert ident xs c = c\<lparr>m_data := fold (insert_one ident) xs (m_data c)\<rparr>"

text \<open>Modelled from the spec: \<open>contains(id)\<close>, \<open>n_cached_objects()\<close>, \<open>set_capacity(N)\<close>
  (which does not evict).\<close>

definition cache_ids :: "('a \<Rightarrow> Id) \<Rightarrow> 'a Cache \<Rightarrow> Id list" where
  "cache_ids ident c = map (\<lambda>e. ident (obj_data e)) (m_data c)"

definition cache_contains :: "('a \<Rightarrow> Id) \<Rightarrow> 'a Cache \<Rightarrow> Id \<Rightarrow> bool" where
  "cache_contains ident c i = (i \<in> set (cache_ids ident c))"

definition n_cached_objects :: "'a Cache \<Rightarrow> nat" where
  "n_cached_objects c = length (m_data c)"

definition set_capacity :: "nat \<Rightarrow> 'a Cache \<Rightarrow> 'a Cache" where
  "set_capacity n c = c\<lparr>m_capacity := n\<rparr>"

text \<open>
  Modelled from the spec: \<open>visit(f)\<close> sets, for every entry, useful to what f returns on
  the entry; it removes nothing. The entries are visited in insertion order. The functor
  of the program can write to variables it captures: it takes and returns that state.
\<close>

fun visit_entries ::
  "('a \<Rightarrow> 's \<Rightarrow> bool \<times> 's) \<Rightarrow> 'a CacheObject list \<Rightarrow> 's \<Rightarrow> 'a CacheObject list \<times> 's" where
  "visit_entries f [] st = ([], st)"
| "visit_entries f (e # es) st =
     (case f (obj_data e) st of (u, st1) \<Rightarrow>
        (case visit_entries f es st1 of (es', st2) \<Rightarrow> (e\<lparr>obj_useful := u\<rparr> # es', st2)))"

definition cache_visit :: "('a \<Rightarrow> 's \<Rightarrow> bool \<times> 's) \<Rightarrow> 'a Cache \<Rightarrow> 's \<Rightarrow> 'a Cache \<times> 's" where
  "cache_visit f c st = (case visit_entries f (m_data c) st of (es, st') \<Rightarrow> (c\<lparr>m_data := es\<rparr>, st'))"

text \<open>
  Modelled from the spec: \<open>purge()\<close> removes entries until the size is at most the
  capacity, entries that are not useful first and, among equals, the least recently
  inserted first; it returns the removed data. \<open>evict P k es\<close> takes the first k entries
  that satisfy P out of es and returns what stays and what was taken.
\<close>

fun evict :: "('a \<Rightarrow> bool) \<Rightarrow> nat \<Rightarrow> 'a list \<Rightarrow> 'a list \<times> 'a list" where
  "evict P 0 es = (es, [])"
| "evict P (Suc k) [] = ([], [])"
| "evict P (Suc k) (e # es) =
     (if P e then (case evict P k es of (kept, gone) \<Rightarrow> (kept, e # gone))
      else (case evict P (Suc k) es of (kept, gone) \<Rightarrow> (e # kept, gone)))"

definition cache_purge :: "'a Cache \<Rightarrow> 'a Cache \<times> 'a list" where
  "cache_purge c =
     (if length (m_data c) \<le> m_capacity c then (c, [])
      else
        (case evict (\<lambda>e. \<not> obj_useful e) (length (m_data c) - m_capacity c) (m_data c) of
          (kept1, gone1) \<Rightarrow>
            (case evict obj_useful (length (m_data c) - m_capacity c - length gone1) kept1 of
              (kept2, gone2) \<Rightarrow> (c\<lparr>m_data := kept2\<rparr>, map obj_data (gone1 @ gone2)))))"

section \<open>The scheduler (nucleus/tile_scheduler/Scheduler.cpp)\<close>

text \<open>
  A single-shot \<open>QTimer\<close>, as far as the scheduler uses it: whether it is active, and the
  interval of its last \<open>start(msec)\<close>, which (re)starts it.
\<close>

record QTimer =
  isActive :: bool
  interval :: int

definition start :: "int \<Rightarrow> QTimer \<Rightarrow> QTimer" where
  "start msec t = t\<lparr>isActive := True, interval := msec\<rparr>"

text \<open>
  The members of \<open>Scheduler\<close> that Scheduler.cpp reads and writes. The camera, the bounding
  boxes and the float of the screen-space error are only handed to \<open>refineFunctor\<close>; the
  decorator is the function that answers \<open>aabb(id)\<close>. The unsigned members are 32-bit words.
\<close>

record ('cam, 'aabb, 'err) Scheduler =
  m_current_camera :: 'cam
  m_aabb_decorator :: "Id \<Rightarrow> 'aabb"
  m_permissible_screen_space_error :: 'err
  m_ortho_tile_size :: "32 word"
  m_height_tile_size :: "32 word"
  m_update_timeout :: "32 word"
  m_purge_timeout :: "32 word"
  m_enabled :: bool
  m_ram_quad_limit :: "32 word"
  m_gpu_quad_limit :: "32 word"
  m_ram_cache :: "TileQuad Cache"
  m_gpu_cached :: "GpuCacheInfo Cache"
  m_default_ortho_tile :: QByteArray
  m_default_height_tile :: QByteArray
  m_update_timer :: QTimer
  m_purge_timer :: QTimer

text \<open>\<open>std::numeric_limits<int>::max()\<close> and the conversion \<open>int(u)\<close> of an unsigned to
  the 32-bit two's complement \<open>int\<close>.\<close>

definition int_max :: nat where
  "int_max = 2147483647"

definition to_int :: "32 word \<Rightarrow> int" where
  "to_int u = (if unat u < 2 ^ 31 then int (unat u) else int (unat u) - 2 ^ 32)"

text \<open>
  The functions of other files that the scheduler calls are parameters of the model:
  \<open>refineFunctor\<close> (camera, decorator, permissible error, tile size) gives the refinement
  predicate on ids; \<open>toQImage\<close> decodes bytes to an image and \<open>qImage2uint16Raster\<close>
  turns an image into a height raster.
\<close>

type_synonym ('cam, 'aabb, 'err) refine_functor =
  "'cam \<Rightarrow> (Id \<Rightarrow> 'aabb) \<Rightarrow> 'err \<Rightarrow> 32 word \<Rightarrow> Id \<Rightarrow> bool"

definition should_refine_of ::
  "('cam, 'aabb, 'err) refine_functor \<Rightarrow> ('cam, 'aabb, 'err) Scheduler \<Rightarrow> Id \<Rightarrow> bool" where
  "should_refine_of refineFunctor s =
     refineFunctor (m_current_camera s) (m_aabb_decorator s)
       (m_permissible_screen_space_error s) (m_ortho_tile_size s)"

subsection \<open>update_gpu_quads\<close>

text \<open>Lines 92 to 107: one child tile of the GPU quad, from the child of the RAM quad.\<close>

definition create_gpu_tile ::
  "(QByteArray \<Rightarrow> 'img) \<Rightarrow> ('img \<Rightarrow> 'raster) \<Rightarrow> ('cam, 'aabb, 'err) Scheduler \<Rightarrow>
     LayeredTile \<Rightarrow> ('aabb, 'img, 'raster) GpuLayeredTile" where
  "create_gpu_tile toQImage qImage2uint16Raster s t =
     (let ortho_data = (case ortho t of None \<Rightarrow> m_default_ortho_tile s | Some b \<Rightarrow> b);
          height_data = (case height t of None \<Rightarrow> m_default_height_tile s | Some b \<Rightarrow> b)
      in \<lparr>gpu_tile_id = tile_id t,
          bounds = m_aabb_decorator s (tile_id t),
          gpu_ortho = toQImage ortho_data,
          gpu_height = qImage2uint16Raster (toQImage height_data)\<rparr>)"

text \<open>Lines 89 to 108: the GPU quad of a RAM quad; the loop runs over i < n_tiles.\<close>

definition create_gpu_quad ::
  "(QByteArray \<Rightarrow> 'img) \<Rightarrow> ('img \<Rightarrow> 'raster) \<Rightarrow> ('cam, 'aabb, 'err) Scheduler \<Rightarrow>
     TileQuad \<Rightarrow> ('aabb, 'img, 'raster) GpuTileQuad" where
  "create_gpu_quad toQImage qImage2uint16Raster s quad =
     \<lparr>gpu_quad_id = quad_id quad,
      gpu_tiles =
        fold (\<lambda>i ts. ts[i := Some (create_gpu_tile toQImage qImage2uint16Raster s (tiles quad ! i))])
          [0..<n_tiles quad] (replicate 4 None)\<rparr>"

text \<open>Lines 82 to 111: the functor given to \<open>m_ram_cache.visit\<close>; its captured state is
  the vector \<open>new_gpu_quads\<close>.\<close>

definition promote_visitor ::
  "(Id \<Rightarrow> bool) \<Rightarrow> (QByteArray \<Rightarrow> 'img) \<Rightarrow> ('img \<Rightarrow> 'raster) \<Rightarrow> ('cam, 'aabb, 'err) Scheduler \<Rightarrow>
     TileQuad \<Rightarrow> ('aabb, 'img, 'raster) GpuTileQuad list \<Rightarrow>
     bool \<times> ('aabb, 'img, 'raster) GpuTileQuad list" where
  "promote_visitor should_refine toQImage qImage2uint16Raster s quad new_gpu_quads =
     (if \<not> should_refine (quad_id quad) then (False, new_gpu_quads)
      else if cache_contains info_id (m_gpu_cached s) (quad_id quad) then (True, new_gpu_quads)
      else (True, new_gpu_quads @ [create_gpu_quad toQImage qImage2uint16Raster s quad]))"

definition promote_quads ::
  "('cam, 'aabb, 'err) refine_functor \<Rightarrow> (QByteArray \<Rightarrow> 'img) \<Rightarrow> ('img \<Rightarrow> 'raster) \<Rightarrow>
     ('cam, 'aabb, 'err) Scheduler \<Rightarrow> TileQuad Cache \<times> ('aabb, 'img, 'raster) GpuTileQuad list" where
  "promote_quads refineFunctor toQImage qImage2uint16Raster s =
     cache_visit (promote_visitor (should_refine_of refineFunctor s) toQImage qImage2uint16Raster s)
       (m_ram_cache s) []"

text \<open>The quads for which the functor makes a GPU quad: the predicate holds on the id and
  the id is not in the GPU shadow cache.\<close>

definition wanted :: "(Id \<Rightarrow> bool) \<Rightarrow> GpuCacheInfo Cache \<Rightarrow> TileQuad \<Rightarrow> bool" where
  "wanted should_refine gpu quad =
     (should_refine (quad_id quad) \<and> \<not> cache_contains info_id gpu (quad_id quad))"

text \<open>The entries of the shadow cache after its visit: every flag is the value of the
  predicate on the id.\<close>

definition marked :: "(Id \<Rightarrow> bool) \<Rightarrow> GpuCacheInfo CacheObject list \<Rightarrow> GpuCacheInfo CacheObject list" where
  "marked R es = map (\<lambda>e. e\<lparr>obj_useful := R (info_id (obj_data e))\<rparr>) es"

text \<open>Lines 113 to 124: insert the shadow records of the new quads, visit, purge.\<close>

definition update_gpu_cache ::
  "('cam, 'aabb, 'err) refine_functor \<Rightarrow> ('cam, 'aabb, 'err) Scheduler \<Rightarrow>
     ('aabb, 'img, 'raster) GpuTileQuad list \<Rightarrow> GpuCacheInfo Cache \<times> GpuCacheInfo list" where
  "update_gpu_cache refineFunctor s new_gpu_quads =
     (let tiles_to_put_in_gpu_cache = map (\<lambda>t. \<lparr>info_id = gpu_quad_id t\<rparr>) new_gpu_quads;
          gpu1 = cache_insert info_id tiles_to_put_in_gpu_cache (m_gpu_cached s);
          gpu2 = fst (cache_visit (\<lambda>quad u. (should_refine_of refineFunctor s (info_id quad), u))
                   gpu1 ())
      in cache_purge gpu2)"

text \<open>
  Lines 132 to 138: \<open>std::erase_if\<close> over \<open>new_gpu_quads\<close>, front to back, with a predicate
  that erases from \<open>superfluous_ids\<close> each id it finds there. The unordered set is a set.
\<close>

fun erase_superfluous ::
  "('aabb, 'img, 'raster) GpuTileQuad list \<Rightarrow> Id set \<Rightarrow>
     ('aabb, 'img, 'raster) GpuTileQuad list \<times> Id set" where
  "erase_superfluous [] superfluous_ids = ([], superfluous_ids)"
| "erase_superfluous (quad # quads) superfluous_ids =
     (if gpu_quad_id quad \<in> superfluous_ids
      then erase_superfluous quads (superfluous_ids - {gpu_quad_id quad})
      else (case erase_superfluous quads superfluous_ids of
              (kept, ids) \<Rightarrow> (quad # kept, ids)))"

text \<open>
  \<open>update_gpu_quads\<close>: the new state and the arguments of the signal
  \<open>gpu_quads_updated(added, removed)\<close>. The order of \<open>removed\<close> is that of an unordered
  set in the program: it is a set here.
\<close>

definition update_gpu_quads ::
  "('cam, 'aabb, 'err) refine_functor \<Rightarrow> (QByteArray \<Rightarrow> 'img) \<Rightarrow> ('img \<Rightarrow> 'raster) \<Rightarrow>
     ('cam, 'aabb, 'err) Scheduler \<Rightarrow>
     ('cam, 'aabb, 'err) Scheduler \<times> ('aabb, 'img, 'raster) GpuTileQuad list \<times> Id set" where
  "update_gpu_quads refineFunctor toQImage qImage2uint16Raster s =
     (case promote_quads refineFunctor toQImage qImage2uint16Raster s of
       (ram, new_gpu_quads) \<Rightarrow>
         (case update_gpu_cache refineFunctor s new_gpu_quads of
           (gpu, superfluous_quads) \<Rightarrow>
             (s\<lparr>m_ram_cache := ram, m_gpu_cached := gpu\<rparr>,
              erase_superfluous new_gpu_quads (set (map info_id superfluous_quads)))))"

subsection \<open>send_quad_requests\<close>

text \<open>
  Modelled from the spec: \<open>quad_tree::onTheFlyTraverse(root, refine, expand)\<close> is declared
  outside the sources. Starting at the root, a node on which \<open>refine\<close> holds is an inner
  node: \<open>expand\<close> is invoked on it (it may record the node, and returns the children) and
  the children are visited in order; any other node is a leaf. The result is the leaves.
  The recursion need not end (the predicate may hold on every id): the fuel bounds the
  depth and the result is \<open>None\<close> when it runs out.
\<close>

fun onTheFlyTraverse ::
  "nat \<Rightarrow> (Id \<Rightarrow> bool) \<Rightarrow> (Id \<Rightarrow> 's \<Rightarrow> Id list \<times> 's) \<Rightarrow> Id \<Rightarrow> 's \<Rightarrow> (Id list \<times> 's) option" where
  "onTheFlyTraverse 0 refine expand root st = None"
| "onTheFlyTraverse (Suc fuel) refine expand root st =
     (if \<not> refine root then Some ([root], st)
      else (case expand root st of
        (cs, st1) \<Rightarrow>
          fold (\<lambda>child acc.
                 (case acc of
                    None \<Rightarrow> None
                  | Some (leaves, st2) \<Rightarrow>
                      (case onTheFlyTraverse fuel refine expand child st2 of
                         None \<Rightarrow> None
                       | Some (tmp, st3) \<Rightarrow> Some (leaves @ tmp, st3))))
            cs (Some ([], st1))))"

text \<open>Lines 179 to 190: the inner nodes that the traversal from the root (0,0,0) records;
  the leaves are computed and dropped.\<close>

definition tiles_for_current_camera_position ::
  "nat \<Rightarrow> ('cam, 'aabb, 'err) refine_functor \<Rightarrow> ('cam, 'aabb, 'err) Scheduler \<Rightarrow> Id list option" where
  "tiles_for_current_camera_position fuel refineFunctor s =
     (case onTheFlyTraverse fuel (should_refine_of refineFunctor s)
             (\<lambda>v all_inner_nodes. (children v, all_inner_nodes @ [v])) (Id 0 0 0) [] of
        None \<Rightarrow> None
      | Some (all_leaves, all_inner_nodes) \<Rightarrow> Some all_inner_nodes)"

text \<open>Lines 143 to 150: the argument of the signal \<open>quads_requested\<close>.\<close>

definition send_quad_requests ::
  "nat \<Rightarrow> ('cam, 'aabb, 'err) refine_functor \<Rightarrow> ('cam, 'aabb, 'err) Scheduler \<Rightarrow> Id list option" where
  "send_quad_requests fuel refineFunctor s =
     (case tiles_for_current_camera_position fuel refineFunctor s of
        None \<Rightarrow> None
      | Some currently_active_tiles \<Rightarrow>
          Some (filter (\<lambda>id. \<not> cache_contains quad_id (m_ram_cache s) id) currently_active_tiles))"

text \<open>
  The working set in the words of the specification (4.B, and step 1 of the update pass):
  the inner nodes of the quad tree under the refinement predicate. The root is an inner
  node when the predicate holds on it, and a child of an inner node is an inner node
  when the predicate holds on it. This definition does not mention the traversal.
\<close>

inductive inner_node :: "(Id \<Rightarrow> bool) \<Rightarrow> Id \<Rightarrow> Id \<Rightarrow> bool" for refine :: "Id \<Rightarrow> bool" and root :: Id where
  at_root: "refine root \<Longrightarrow> inner_node refine root root"
| at_child: "inner_node refine root v \<Longrightarrow> c \<in> set (children v) \<Longrightarrow> refine c \<Longrightarrow>
     inner_node refine root c"

text \<open>
  The inner nodes down to a depth, listed with a node before the subtrees of its
  children and the children in their fixed order.
\<close>

fun inner_nodes_preorder :: "nat \<Rightarrow> (Id \<Rightarrow> bool) \<Rightarrow> Id \<Rightarrow> Id list" where
  "inner_nodes_preorder 0 refine v = []"
| "inner_nodes_preorder (Suc depth) refine v =
     (if refine v then v # concat (map (inner_nodes_preorder depth refine) (children v)) else [])"

subsection \<open>purge_ram_cache\<close>

text \<open>
  \<open>unsigned(float(m_ram_quad_limit) * 1.1f)\<close> in IEEE binary32, round to nearest, ties to
  even. A positive binary32 value has 24 significant bits: \<open>round_to_float m\<close> rounds the
  natural number m to 24 significant bits. \<open>float(limit)\<close> is \<open>round_to_float limit\<close>;
  \<open>1.1f\<close> is 9227469 / 2^23; the exact product is a multiple of 2^-23 and is rounded the
  same way; the conversion to unsigned truncates, and is undefined from 2^32 on.
\<close>

fun bit_length :: "nat \<Rightarrow> nat" where
  "bit_length n = (if n = 0 then 0 else Suc (bit_length (n div 2)))"

declare bit_length.simps [simp del]

definition round_to_float :: "nat \<Rightarrow> nat" where
  "round_to_float m =
     (if m < 2 ^ 24 then m
      else (let sh = bit_length m - 24; q = m div 2 ^ sh; r = m mod 2 ^ sh
            in (if 2 ^ sh < 2 * r \<or> (2 * r = 2 ^ sh \<and> odd q) then q + 1 else q) * 2 ^ sh))"

definition purge_threshold :: "32 word \<Rightarrow> nat option" where
  "purge_threshold limit =
     (let product = round_to_float (round_to_float (unat limit) * 9227469) div 2 ^ 23
      in if product < 2 ^ 32 then Some product else None)"

text \<open>Lines 152 to 162.\<close>

definition purge_ram_cache ::
  "('cam, 'aabb, 'err) refine_functor \<Rightarrow> ('cam, 'aabb, 'err) Scheduler \<Rightarrow>
     error + ('cam, 'aabb, 'err) Scheduler" where
  "purge_ram_cache refineFunctor s =
     (case purge_threshold (m_ram_quad_limit s) of
        None \<Rightarrow> Inl UndefinedConversion
      | Some threshold \<Rightarrow>
          if n_cached_objects (m_ram_cache s) < threshold then Inr s
          else
            (let ram1 = fst (cache_visit (\<lambda>quad u. (should_refine_of refineFunctor s (quad_id quad), u))
                         (m_ram_cache s) ())
             in Inr (s\<lparr>m_ram_cache := fst (cache_purge ram1)\<rparr>)))"

text \<open>The condition of the specification for the purge pass to do nothing, n < 1.1 x limit,
  in integers.\<close>

definition spec_below_slack :: "nat \<Rightarrow> nat \<Rightarrow> bool" where
  "spec_below_slack n limit = (10 * n < 11 * limit)"

subsection \<open>Timers, setters and slots\<close>

text \<open>Lines 164 to 177. An assertion that fails aborts: it is the error value.\<close>

definition schedule_update :: "('cam, 'aabb, 'err) Scheduler \<Rightarrow> error + ('cam, 'aabb, 'err) Scheduler" where
  "schedule_update s =
     (if \<not> unat (m_update_timeout s) < int_max then Inl AssertionFailed
      else if m_enabled s \<and> \<not> isActive (m_update_timer s)
        then Inr (s\<lparr>m_update_timer := start (to_int (m_update_timeout s)) (m_update_timer s)\<rparr>)
      else Inr s)"

definition schedule_purge :: "('cam, 'aabb, 'err) Scheduler \<Rightarrow> error + ('cam, 'aabb, 'err) Scheduler" where
  "schedule_purge s =
     (if \<not> unat (m_purge_timeout s) < int_max then Inl AssertionFailed
      else if m_enabled s \<and> \<not> isActive (m_purge_timer s)
        then Inr (s\<lparr>m_purge_timer := start (to_int (m_purge_timeout s)) (m_purge_timer s)\<rparr>)
      else Inr s)"

text \<open>Lines 65 to 76.\<close>

definition update_camera ::
  "'cam \<Rightarrow> ('cam, 'aabb, 'err) Scheduler \<Rightarrow> error + ('cam, 'aabb, 'err) Scheduler" where
  "update_camera camera s = schedule_update (s\<lparr>m_current_camera := camera\<rparr>)"

definition receiver_quads ::
  "TileQuad list \<Rightarrow> ('cam, 'aabb, 'err) Scheduler \<Rightarrow> error + ('cam, 'aabb, 'err) Scheduler" where
  "receiver_quads new_quads s =
     (case schedule_purge (s\<lparr>m_ram_cache := cache_insert quad_id new_quads (m_ram_cache s)\<rparr>) of
        Inl e \<Rightarrow> Inl e
      | Inr s1 \<Rightarrow> schedule_update s1)"

text \<open>Lines 197 to 205. The timer is restarted with \<open>int(m_update_timeout)\<close>.\<close>

definition set_purge_timeout ::
  "32 word \<Rightarrow> ('cam, 'aabb, 'err) Scheduler \<Rightarrow> error + ('cam, 'aabb, 'err) Scheduler" where
  "set_purge_timeout new_purge_timeout s =
     (if \<not> unat new_purge_timeout < int_max then Inl AssertionFailed
      else (let s1 = s\<lparr>m_purge_timeout := new_purge_timeout\<rparr>
            in if isActive (m_purge_timer s1)
               then Inr (s1\<lparr>m_purge_timer := start (to_int (m_update_timeout s1)) (m_purge_timer s1)\<rparr>)
               else Inr s1))"

text \<open>Lines 207 to 227: the setters that check nothing.\<close>

definition set_ram_quad_limit :: "32 word \<Rightarrow> ('cam, 'aabb, 'err) Scheduler \<Rightarrow> ('cam, 'aabb, 'err) Scheduler" where
  "set_ram_quad_limit new_ram_quad_limit s =
     s\<lparr>m_ram_quad_limit := new_ram_quad_limit,
       m_ram_cache := set_capacity (unat new_ram_quad_limit) (m_ram_cache s)\<rparr>"

definition set_gpu_quad_limit :: "32 word \<Rightarrow> ('cam, 'aabb, 'err) Scheduler \<Rightarrow> ('cam, 'aabb, 'err) Scheduler" where
  "set_gpu_quad_limit new_gpu_quad_limit s =
     s\<lparr>m_gpu_quad_limit := new_gpu_quad_limit,
       m_gpu_cached := set_capacity (unat new_gpu_quad_limit) (m_gpu_cached s)\<rparr>"

definition set_aabb_decorator ::
  "(Id \<Rightarrow> 'aabb) \<Rightarrow> ('cam, 'aabb, 'err) Scheduler \<Rightarrow> ('cam, 'aabb, 'err) Scheduler" where
  "set_aabb_decorator new_aabb_decorator s = s\<lparr>m_aabb_decorator := new_aabb_decorator\<rparr>"

definition set_permissible_screen_space_error ::
  "'err \<Rightarrow> ('cam, 'aabb, 'err) Scheduler \<Rightarrow> ('cam, 'aabb, 'err) Scheduler" where
  "set_permissible_screen_space_error new_permissible_screen_space_error s =
     s\<lparr>m_permissible_screen_space_error := new_permissible_screen_space_error\<rparr>"

text \<open>Lines 234 to 247. The assertion of \<open>set_update_timeout\<close> reads the member
  \<open>m_update_timeout\<close>, before the assignment.\<close>

definition set_enabled :: "bool \<Rightarrow> ('cam, 'aabb, 'err) Scheduler \<Rightarrow> error + ('cam, 'aabb, 'err) Scheduler" where
  "set_enabled new_enabled s = schedule_update (s\<lparr>m_enabled := new_enabled\<rparr>)"

definition set_update_timeout ::
  "32 word \<Rightarrow> ('cam, 'aabb, 'err) Scheduler \<Rightarrow> error + ('cam, 'aabb, 'err) Scheduler" where
  "set_update_timeout new_update_timeout s =
     (if \<not> unat (m_update_timeout s) < int_max then Inl AssertionFailed
      else (let s1 = s\<lparr>m_update_timeout := new_update_timeout\<rparr>
            in if isActive (m_update_timer s1)
               then Inr (s1\<lparr>m_update_timer := start (to_int (m_update_timeout s1)) (m_update_timer s1)\<rparr>)
               else Inr s1))"

section \<open>Concrete inputs\<close>

text \<open>
  Inputs on which the model is evaluated: a refinement predicate that holds on the ids
  whose zoom level is below a depth given as the camera, a decoder that accepts the bytes that start with 73 and gives the
  null image (\<open>None\<close>) on any other, a raster of the decoded bytes, a quad whose four
  children carry no payload, and a scheduler with the given RAM quads and GPU shadow ids.
\<close>

definition depth_refine :: "(nat, unit, unit) refine_functor" where
  "depth_refine camera decorator err tile_size i = (unat (zoom_level i) < camera)"

definition magic_toQImage :: "QByteArray \<Rightarrow> QByteArray option" where
  "magic_toQImage bytes = (case bytes of [] \<Rightarrow> None | b # rest \<Rightarrow> if b = 73 then Some rest else None)"

definition bytes_raster :: "QByteArray option \<Rightarrow> nat list" where
  "bytes_raster img = (case img of None \<Rightarrow> [] | Some bs \<Rightarrow> map unat bs)"

definition plain_quad :: "Id \<Rightarrow> TileQuad" where
  "plain_quad i =
     \<lparr>quad_id = i, n_tiles = 4,
      tiles = map (\<lambda>c. \<lparr>tile_id = c, ortho = None, height = None\<rparr>) (children i)\<rparr>"

definition test_scheduler :: "nat \<Rightarrow> TileQuad list \<Rightarrow> nat \<Rightarrow> Id list \<Rightarrow> (nat, unit, unit) Scheduler" where
  "test_scheduler depth ram_quads gpu_capacity gpu_ids =
     \<lparr>m_current_camera = depth, m_aabb_decorator = (\<lambda>i. ()), m_permissible_screen_space_error = (),
      m_ortho_tile_size = 256, m_height_tile_size = 64, m_update_timeout = 100, m_purge_timeout = 1000,
      m_enabled = True, m_ram_quad_limit = 100, m_gpu_quad_limit = of_nat gpu_capacity,
      m_ram_cache = cache_insert quad_id ram_quads \<lparr>m_data = [], m_capacity = 100\<rparr>,
      m_gpu_cached = cache_insert info_id (map (\<lambda>i. \<lparr>info_id = i\<rparr>) gpu_ids)
                       \<lparr>m_data = [], m_capacity = gpu_capacity\<rparr>,
      m_default_ortho_tile = [73, 255], m_default_height_tile = [73, 0],
      m_update_timer = \<lparr>isActive = False, interval = 0\<rparr>,
      m_purge_timer = \<lparr>isActive = False, interval = 0\<rparr>\<rparr>"

text \<open>A quad whose first child has an ortho payload that the decoder above rejects.\<close>

definition malformed_quad :: TileQuad where
  "malformed_quad =
     \<lparr>quad_id = Id 0 0 0, n_tiles = 4,
      tiles = [\<lparr>tile_id = Id 1 0 0, ortho = Some [0, 1], height = None\<rparr>,
               \<lparr>tile_id = Id 1 1 0, ortho = None, height = None\<rparr>,
               \<lparr>tile_id = Id 1 0 1, ortho = None, height = None\<rparr>,
               \<lparr>tile_id = Id 1 1 1, ortho = None, height = None\<rparr>]\<rparr>"

text \<open>A scheduler with empty caches, a given update timeout and permissible error (an
  integer stands for the float), and both timers armed or not.\<close>

definition timer_scheduler :: "32 word \<Rightarrow> int \<Rightarrow> bool \<Rightarrow> (nat, unit, int) Scheduler" where
  "timer_scheduler update_timeout err armed =
     \<lparr>m_current_camera = 0, m_aabb_decorator = (\<lambda>i. ()), m_permissible_screen_space_error = err,
      m_ortho_tile_size = 256, m_height_tile_size = 64,
      m_update_timeout = update_timeout, m_purge_timeout = 1000,
      m_enabled = True, m_ram_quad_limit = 100, m_gpu_quad_limit = 10,
      m_ram_cache = \<lparr>m_data = [], m_capacity = 100\<rparr>,
      m_gpu_cached = \<lparr>m_data = [], m_capacity = 10\<rparr>,
      m_default_ortho_tile = [73, 255], m_default_height_tile = [73, 0],
      m_update_timer = \<lparr>isActive = armed, interval = 100\<rparr>,
      m_purge_timer = \<lparr>isActive = armed, interval = 1000\<rparr>\<rparr>"

text \<open>Twelve quads in a RAM cache whose limit and capacity are set to 11.\<close>

definition twelve_quads :: "TileQuad list" where
  "twelve_quads = map (\<lambda>x. plain_quad (Id 4 x 0)) [0, 1, 2, 3, 4, 5, 6, 7, 8, 9, 10, 11]"

definition slack_scheduler :: "(nat, unit, unit) Scheduler" where
  "slack_scheduler = set_ram_quad_limit 11 (test_scheduler 0 twelve_quads 1 [])"

section \<open>Lemmas about the bounded cache\<close>

lemma visit_entries_pure:
  "visit_entries (\<lambda>x u. (f x, u)) es st = (map (\<lambda>e. e\<lparr>obj_useful := f (obj_data e)\<rparr>) es, st)"
  by (induction es) simp_all

lemma cache_visit_pure:
  "cache_visit (\<lambda>x u. (f x, u)) c st =
     (c\<lparr>m_data := map (\<lambda>e. e\<lparr>obj_useful := f (obj_data e)\<rparr>) (m_data c)\<rparr>, st)"
  by (simp add: cache_visit_def visit_entries_pure)

lemma evict_mset: "evict P k es = (kept, gone) \<Longrightarrow> mset kept + mset gone = mset es"
  by (induction P k es arbitrary: kept gone rule: evict.induct) (auto split: if_splits prod.splits)

lemma evict_length_gone: "length (snd (evict P k es)) = min k (length (filter P es))"
  by (induction P k es rule: evict.induct) (auto split: prod.splits)

lemma evict_length_kept: "length (fst (evict P k es)) = length es - min k (length (filter P es))"
proof -
  obtain kept gone where e: "evict P k es = (kept, gone)" by (cases "evict P k es")
  from evict_mset [OF e] have "length kept + length gone = length es"
    by (metis size_mset size_union)
  moreover have "length gone = min k (length (filter P es))"
    using evict_length_gone [of P k es] e by simp
  ultimately show ?thesis using e by simp
qed

lemma evict_gone_sat: "x \<in> set (snd (evict P k es)) \<Longrightarrow> P x"
  by (induction P k es rule: evict.induct) (auto split: prod.splits if_splits)

lemma evict_keeps_others: "filter (\<lambda>e. \<not> P e) (fst (evict P k es)) = filter (\<lambda>e. \<not> P e) es"
  by (induction P k es rule: evict.induct) (auto split: prod.splits)

lemma evict_kept_subset: "set (fst (evict P k es)) \<subseteq> set es"
  by (induction P k es rule: evict.induct) (auto split: prod.splits)

lemma evict_distinct: "distinct (map f es) \<Longrightarrow> distinct (map f (fst (evict P k es)))"
proof (induction P k es rule: evict.induct)
  case (3 P k e es)
  then show ?case
    using evict_kept_subset [of P "Suc k" es] by (auto split: prod.splits)
qed simp_all


lemma cache_purge_size: "n_cached_objects (fst (cache_purge c)) \<le> m_capacity c"
proof (cases "length (m_data c) \<le> m_capacity c")
  case True
  then show ?thesis by (simp add: cache_purge_def n_cached_objects_def)
next
  case False
  define k where "k = length (m_data c) - m_capacity c"
  define r1 where "r1 = evict (\<lambda>e. \<not> obj_useful e) k (m_data c)"
  define r2 where "r2 = evict obj_useful (k - length (snd r1)) (fst r1)"
  have res: "m_data (fst (cache_purge c)) = fst r2"
    using False by (simp add: cache_purge_def r1_def r2_def k_def split: prod.splits)
  have g1: "length (snd r1) = min k (length (filter (\<lambda>e. \<not> obj_useful e) (m_data c)))"
    unfolding r1_def by (rule evict_length_gone)
  have l1: "length (fst r1) = length (m_data c) - length (snd r1)"
    unfolding r1_def by (simp add: evict_length_kept evict_length_gone)
  have u1: "filter obj_useful (fst r1) = filter obj_useful (m_data c)"
    using evict_keeps_others [of "\<lambda>e. \<not> obj_useful e" k "m_data c"] by (simp add: r1_def)
  have l2: "length (fst r2) = length (fst r1) - min (k - length (snd r1)) (length (filter obj_useful (fst r1)))"
    unfolding r2_def by (rule evict_length_kept)
  have split: "length (filter obj_useful (m_data c)) + length (filter (\<lambda>e. \<not> obj_useful e) (m_data c))
                 = length (m_data c)"
    by (rule sum_length_filter_compl)
  have "length (fst r2) \<le> m_capacity c"
    using False g1 l1 l2 u1 split unfolding k_def by (simp add: min_def split: if_splits)
  then show ?thesis by (simp add: res n_cached_objects_def)
qed



lemma cache_purge_kept_subset: "set (m_data (fst (cache_purge c))) \<subseteq> set (m_data c)"
proof (cases "length (m_data c) \<le> m_capacity c")
  case True
  then show ?thesis by (simp add: cache_purge_def)
next
  case False
  define r1 where "r1 = evict (\<lambda>e. \<not> obj_useful e) (length (m_data c) - m_capacity c) (m_data c)"
  define r2 where "r2 = evict obj_useful (length (m_data c) - m_capacity c - length (snd r1)) (fst r1)"
  have "m_data (fst (cache_purge c)) = fst r2"
    using False by (simp add: cache_purge_def r1_def r2_def split: prod.splits)
  moreover have "set (fst r2) \<subseteq> set (fst r1)"
    unfolding r2_def by (rule evict_kept_subset)
  moreover have "set (fst r1) \<subseteq> set (m_data c)"
    unfolding r1_def by (rule evict_kept_subset)
  ultimately show ?thesis by simp
qed

lemma cache_purge_distinct:
  "distinct (map f (m_data c)) \<Longrightarrow> distinct (map f (m_data (fst (cache_purge c))))"
proof (cases "length (m_data c) \<le> m_capacity c")
  case True
  assume "distinct (map f (m_data c))"
  with True show ?thesis by (simp add: cache_purge_def)
next
  case False
  assume d: "distinct (map f (m_data c))"
  define r1 where "r1 = evict (\<lambda>e. \<not> obj_useful e) (length (m_data c) - m_capacity c) (m_data c)"
  define r2 where "r2 = evict obj_useful (length (m_data c) - m_capacity c - length (snd r1)) (fst r1)"
  have "m_data (fst (cache_purge c)) = fst r2"
    using False by (simp add: cache_purge_def r1_def r2_def split: prod.splits)
  moreover have "distinct (map f (fst r1))"
    unfolding r1_def using d by (rule evict_distinct)
  then have "distinct (map f (fst r2))"
    unfolding r2_def by (rule evict_distinct)
  ultimately show ?thesis by simp
qed

lemma cache_purge_size_eq:
  assumes "m_capacity c < length (m_data c)"
  shows "n_cached_objects (fst (cache_purge c)) = m_capacity c"
proof -
  define k where "k = length (m_data c) - m_capacity c"
  define r1 where "r1 = evict (\<lambda>e. \<not> obj_useful e) k (m_data c)"
  define r2 where "r2 = evict obj_useful (k - length (snd r1)) (fst r1)"
  have res: "m_data (fst (cache_purge c)) = fst r2"
    using assms by (simp add: cache_purge_def r1_def r2_def k_def split: prod.splits)
  have g1: "length (snd r1) = min k (length (filter (\<lambda>e. \<not> obj_useful e) (m_data c)))"
    unfolding r1_def by (rule evict_length_gone)
  have l1: "length (fst r1) = length (m_data c) - length (snd r1)"
    unfolding r1_def by (simp add: evict_length_kept evict_length_gone)
  have u1: "filter obj_useful (fst r1) = filter obj_useful (m_data c)"
    using evict_keeps_others [of "\<lambda>e. \<not> obj_useful e" k "m_data c"] by (simp add: r1_def)
  have l2: "length (fst r2) = length (fst r1) - min (k - length (snd r1)) (length (filter obj_useful (fst r1)))"
    unfolding r2_def by (rule evict_length_kept)
  have split: "length (filter obj_useful (m_data c)) + length (filter (\<lambda>e. \<not> obj_useful e) (m_data c))
                 = length (m_data c)"
    by (rule sum_length_filter_compl)
  have "length (fst r2) = m_capacity c"
    using assms g1 l1 l2 u1 split unfolding k_def by (simp add: min_def split: if_splits)
  then show ?thesis by (simp add: res n_cached_objects_def)
qed

lemma insert_one_fresh:
  "ident x \<notin> set (map (\<lambda>e. ident (obj_data e)) es) \<Longrightarrow>
     insert_one ident x es = es @ [\<lparr>obj_data = x, obj_useful = True\<rparr>]"
proof -
  assume "ident x \<notin> set (map (\<lambda>e. ident (obj_data e)) es)"
  then have "\<forall>e\<in>set es. ident (obj_data e) \<noteq> ident x"
    by (metis (no_types, lifting) image_eqI set_map)
  then have "filter (\<lambda>e. ident (obj_data e) \<noteq> ident x) es = es"
    by (intro filter_True)
  then show ?thesis by (simp add: insert_one_def)
qed

lemma fold_insert_fresh:
  "distinct (map ident xs) \<Longrightarrow>
   set (map ident xs) \<inter> set (map (\<lambda>e. ident (obj_data e)) es) = {} \<Longrightarrow>
     map obj_data (fold (insert_one ident) xs es) = map obj_data es @ xs"
proof (induction xs arbitrary: es)
  case Nil
  then show ?case by simp
next
  case (Cons x xs)
  from Cons.prems have fresh: "ident x \<notin> set (map (\<lambda>e. ident (obj_data e)) es)" by auto
  have step: "insert_one ident x es = es @ [\<lparr>obj_data = x, obj_useful = True\<rparr>]"
    using fresh by (rule insert_one_fresh)
  have d: "distinct (map ident xs)" using Cons.prems by simp
  have disj: "set (map ident xs) \<inter>
                set (map (\<lambda>e. ident (obj_data e)) (es @ [\<lparr>obj_data = x, obj_useful = True\<rparr>])) = {}"
    using Cons.prems by auto
  show ?case
    using Cons.IH [OF d disj] by (simp add: step)
qed

lemma insert_one_distinct:
  "distinct (map (\<lambda>e. ident (obj_data e)) es) \<Longrightarrow>
     distinct (map (\<lambda>e. ident (obj_data e)) (insert_one ident x es))"
  by (auto simp: insert_one_def distinct_map_filter)

lemma cache_insert_distinct:
  "distinct (cache_ids ident c) \<Longrightarrow> distinct (cache_ids ident (cache_insert ident xs c))"
proof -
  have "distinct (map (\<lambda>e. ident (obj_data e)) es) \<Longrightarrow>
          distinct (map (\<lambda>e. ident (obj_data e)) (fold (insert_one ident) xs es))" for es
    by (induction xs arbitrary: es) (simp_all add: insert_one_distinct)
  then show "distinct (cache_ids ident c) \<Longrightarrow> distinct (cache_ids ident (cache_insert ident xs c))"
    by (simp add: cache_ids_def cache_insert_def)
qed



section \<open>Lemmas about the stages of update_gpu_quads\<close>

lemma fold_write_tiles:
  "n \<le> length ts \<Longrightarrow>
     fold (\<lambda>i ts. ts[i := Some (f i)]) [0..<n] ts = map (\<lambda>i. Some (f i)) [0..<n] @ drop n ts"
proof (induction n)
  case 0
  then show ?case by simp
next
  case (Suc n)
  then have "n < length ts" by simp
  then have d: "drop n ts = ts ! n # drop (Suc n) ts"
    by (simp add: Cons_nth_drop_Suc)
  have "(map (\<lambda>i. Some (f i)) [0..<n] @ drop n ts)[n := Some (f n)]
               = map (\<lambda>i. Some (f i)) [0..<n] @ Some (f n) # drop (Suc n) ts"
    by (subst d) (simp add: list_update_append)
  with Suc show ?case by simp
qed

lemma create_gpu_quad_tile:
  "n_tiles quad \<le> 4 \<Longrightarrow> i < n_tiles quad \<Longrightarrow>
     gpu_tiles (create_gpu_quad tq tr s quad) ! i = Some (create_gpu_tile tq tr s (tiles quad ! i))"
  by (simp add: create_gpu_quad_def fold_write_tiles nth_append)

lemma create_gpu_quad_id [simp]: "gpu_quad_id (create_gpu_quad tq tr s quad) = quad_id quad"
  by (simp add: create_gpu_quad_def)

lemma visit_entries_promote:
  "visit_entries (promote_visitor R tq tr s) es acc =
     (map (\<lambda>e. e\<lparr>obj_useful := R (quad_id (obj_data e))\<rparr>) es,
      acc @ map (create_gpu_quad tq tr s) (filter (wanted R (m_gpu_cached s)) (map obj_data es)))"
  by (induction es arbitrary: acc) (simp_all add: promote_visitor_def wanted_def)

lemma promote_quads_eq:
  "promote_quads rf tq tr s =
     ((m_ram_cache s)\<lparr>m_data := map (\<lambda>e. e\<lparr>obj_useful := should_refine_of rf s (quad_id (obj_data e))\<rparr>)
                                   (m_data (m_ram_cache s))\<rparr>,
      map (create_gpu_quad tq tr s)
        (filter (wanted (should_refine_of rf s) (m_gpu_cached s)) (map obj_data (m_data (m_ram_cache s)))))"
  by (simp add: promote_quads_def cache_visit_def visit_entries_promote)

lemma erase_superfluous_sound:
  "erase_superfluous quads ids = (kept, ids') \<Longrightarrow>
     set kept \<subseteq> set quads \<and> ids' \<subseteq> ids \<and> gpu_quad_id ` set kept \<inter> ids' = {}"
proof (induction quads arbitrary: ids kept ids')
  case Nil
  then show ?case by simp
next
  case (Cons q quads)
  show ?case
  proof (cases "gpu_quad_id q \<in> ids")
    case True
    with Cons.prems have "erase_superfluous quads (ids - {gpu_quad_id q}) = (kept, ids')" by simp
    from Cons.IH [OF this] True show ?thesis by auto
  next
    case False
    with Cons.prems obtain kept0 where k: "erase_superfluous quads ids = (kept0, ids')" "kept = q # kept0"
      by (auto split: prod.splits)
    from Cons.IH [OF k(1)] False k(2) show ?thesis by auto
  qed
qed

lemma erase_superfluous_distinct:
  "distinct (map gpu_quad_id quads) \<Longrightarrow>
     erase_superfluous quads ids =
       (filter (\<lambda>q. gpu_quad_id q \<notin> ids) quads, ids - gpu_quad_id ` set quads)"
proof (induction quads arbitrary: ids)
  case Nil
  then show ?case by simp
next
  case (Cons q quads)
  from Cons.prems have d: "distinct (map gpu_quad_id quads)" by simp
  from Cons.prems have n: "\<And>x. x \<in> set quads \<Longrightarrow> gpu_quad_id x \<noteq> gpu_quad_id q"
    by (metis distinct.simps(2) image_eqI list.simps(9) set_map)
  show ?case
  proof (cases "gpu_quad_id q \<in> ids")
    case True
    have f: "filter (\<lambda>x. gpu_quad_id x \<notin> ids - {gpu_quad_id q}) quads =
             filter (\<lambda>x. gpu_quad_id x \<notin> ids) (q # quads)"
      using True n by (auto intro: filter_cong)
    have g: "ids - {gpu_quad_id q} - gpu_quad_id ` set quads =
             ids - gpu_quad_id ` set (q # quads)"
      by auto
    have "erase_superfluous (q # quads) ids = erase_superfluous quads (ids - {gpu_quad_id q})"
      using True by simp
    also have "\<dots> = (filter (\<lambda>x. gpu_quad_id x \<notin> ids - {gpu_quad_id q}) quads,
                     ids - {gpu_quad_id q} - gpu_quad_id ` set quads)"
      by (rule Cons.IH [OF d])
    finally show ?thesis unfolding f g .
  next
    case False
    have g: "ids - gpu_quad_id ` set quads = ids - gpu_quad_id ` set (q # quads)"
      using False by auto
    have "erase_superfluous (q # quads) ids =
            (q # fst (erase_superfluous quads ids), snd (erase_superfluous quads ids))"
      using False by (simp split: prod.splits)
    also have "\<dots> = (q # filter (\<lambda>x. gpu_quad_id x \<notin> ids) quads, ids - gpu_quad_id ` set quads)"
      by (simp only: Cons.IH [OF d] fst_conv snd_conv)
    also have "q # filter (\<lambda>x. gpu_quad_id x \<notin> ids) quads = filter (\<lambda>x. gpu_quad_id x \<notin> ids) (q # quads)"
      using False by simp
    finally show ?thesis unfolding g .
  qed
qed


lemma update_gpu_quads_ram:
  "m_ram_cache (fst (update_gpu_quads rf tq tr s)) =
     (m_ram_cache s)\<lparr>m_data := map (\<lambda>e. e\<lparr>obj_useful := should_refine_of rf s (quad_id (obj_data e))\<rparr>)
                                  (m_data (m_ram_cache s))\<rparr>"
  by (simp add: update_gpu_quads_def promote_quads_eq split: prod.splits)

lemma update_gpu_quads_added:
  "set (fst (snd (update_gpu_quads rf tq tr s))) \<subseteq> set (snd (promote_quads rf tq tr s))"
proof -
  obtain ram new where p: "promote_quads rf tq tr s = (ram, new)" by (cases "promote_quads rf tq tr s")
  obtain gpu sup where u: "update_gpu_cache rf s new = (gpu, sup)" by (cases "update_gpu_cache rf s new")
  obtain kept ids where e: "erase_superfluous new (info_id ` set sup) = (kept, ids)"
    by (cases "erase_superfluous new (info_id ` set sup)")
  from erase_superfluous_sound [OF e] have "set kept \<subseteq> set new" by simp
  then show ?thesis by (simp add: update_gpu_quads_def p u e)
qed

lemma promoted_from_ram:
  "g \<in> set (snd (promote_quads rf tq tr s)) \<Longrightarrow>
     \<exists>quad \<in> obj_data ` set (m_data (m_ram_cache s)).
        wanted (should_refine_of rf s) (m_gpu_cached s) quad \<and> g = create_gpu_quad tq tr s quad"
  by (auto simp: promote_quads_eq)

lemma promoted_or_added_from_ram:
  assumes "g \<in> set (snd (promote_quads rf tq tr s)) \<union> set (fst (snd (update_gpu_quads rf tq tr s)))"
  shows "\<exists>quad \<in> obj_data ` set (m_data (m_ram_cache s)).
           wanted (should_refine_of rf s) (m_gpu_cached s) quad \<and> g = create_gpu_quad tq tr s quad"
  using assms update_gpu_quads_added [of rf tq tr s] promoted_from_ram [of g rf tq tr s] by blast

lemma test_scheduler_sel:
  "m_ram_cache (test_scheduler d qs c ids) = cache_insert quad_id qs \<lparr>m_data = [], m_capacity = 100\<rparr>"
  "m_gpu_cached (test_scheduler d qs c ids) =
     cache_insert info_id (map (\<lambda>i. \<lparr>info_id = i\<rparr>) ids) \<lparr>m_data = [], m_capacity = c\<rparr>"
  "m_default_ortho_tile (test_scheduler d qs c ids) = [73, 255]"
  "m_default_height_tile (test_scheduler d qs c ids) = [73, 0]"
  "m_current_camera (test_scheduler d qs c ids) = d"
  "should_refine_of depth_refine (test_scheduler d qs c ids) i = (unat (zoom_level i) < d)"
  by (simp_all add: test_scheduler_def should_refine_of_def depth_refine_def)

lemma upt_4: "[0..<4] = [0, 1, 2, 3]"
  by (simp add: upt_rec)

lemma create_gpu_quad_tiles:
  "n_tiles quad \<le> 4 \<Longrightarrow>
     gpu_tiles (create_gpu_quad tq tr s quad) =
       map (\<lambda>i. Some (create_gpu_tile tq tr s (tiles quad ! i))) [0..<n_tiles quad] @
       replicate (4 - n_tiles quad) None"
  by (simp add: create_gpu_quad_def fold_write_tiles)

lemma promoted_ids:
  "map gpu_quad_id (snd (promote_quads rf tq tr s)) =
     filter (\<lambda>i. should_refine_of rf s i \<and> \<not> cache_contains info_id (m_gpu_cached s) i)
       (cache_ids quad_id (m_ram_cache s))"
  by (simp add: promote_quads_eq cache_ids_def filter_map comp_def wanted_def)

lemma promoted_distinct:
  "distinct (cache_ids quad_id (m_ram_cache s)) \<Longrightarrow>
     distinct (map gpu_quad_id (snd (promote_quads rf tq tr s)))"
  by (simp add: promoted_ids)

lemma update_gpu_quads_signal:
  "snd (update_gpu_quads rf tq tr s) =
     erase_superfluous (snd (promote_quads rf tq tr s))
       (info_id ` set (snd (update_gpu_cache rf s (snd (promote_quads rf tq tr s)))))"
  by (simp add: update_gpu_quads_def split: prod.splits)

section \<open>The signal quads_requested\<close>

text \<open>
  The traversal returns when the fuel exceeds a depth d, at most 255, from which the
  refinement predicate fails on every id.
\<close>

lemma children_zoom:
  "c \<in> set (children v) \<Longrightarrow> zoom_level c = zoom_level v + 1"
  by (auto simp: children_def)

lemma unat_zoom_succ:
  "unat (z :: 8 word) < 255 \<Longrightarrow> unat (z + 1) = unat z + 1"
  by (simp add: unat_word_ariths)

lemma fold_traverse_None:
  "fold (\<lambda>child acc.
           (case acc of None \<Rightarrow> None
            | Some (leaves, st2) \<Rightarrow>
                (case f child st2 of None \<Rightarrow> None | Some (tmp, st3) \<Rightarrow> Some (leaves @ tmp, st3))))
      cs None = None"
  by (induction cs) simp_all

lemma fold_traverse_Some:
  assumes "\<And>c st. c \<in> set cs \<Longrightarrow> f c st \<noteq> None"
  shows "fold (\<lambda>child acc.
           (case acc of None \<Rightarrow> None
            | Some (leaves, st2) \<Rightarrow>
                (case f child st2 of None \<Rightarrow> None | Some (tmp, st3) \<Rightarrow> Some (leaves @ tmp, st3))))
      cs (Some a) \<noteq> None"
  using assms
proof (induction cs arbitrary: a)
  case Nil
  then show ?case by simp
next
  case (Cons c cs)
  obtain leaves st2 where a: "a = (leaves, st2)" by (cases a)
  from Cons.prems [of c st2] obtain tmp st3 where r: "f c st2 = Some (tmp, st3)" by auto
  show ?case
    using Cons.IH [of "(leaves @ tmp, st3)"] Cons.prems by (simp add: a r)
qed

lemma onTheFlyTraverse_returns:
  assumes bounded: "\<And>i. d \<le> unat (zoom_level i) \<Longrightarrow> \<not> refine i"
    and d: "d \<le> 255"
  shows "unat (zoom_level v) \<le> d \<Longrightarrow> d - unat (zoom_level v) < fuel \<Longrightarrow>
           onTheFlyTraverse fuel refine (\<lambda>v acc. (children v, acc @ [v])) v st \<noteq> None"
proof (induction fuel arbitrary: v st)
  case 0
  then show ?case by simp
next
  case (Suc fuel)
  show ?case
  proof (cases "refine v")
    case False
    then show ?thesis by simp
  next
    case True
    with bounded [of v] have lt: "unat (zoom_level v) < d" by (cases "d \<le> unat (zoom_level v)") auto
    have kids: "onTheFlyTraverse fuel refine (\<lambda>v acc. (children v, acc @ [v])) c st' \<noteq> None"
      if "c \<in> set (children v)" for c st'
    proof -
      from that have "zoom_level c = zoom_level v + 1" by (rule children_zoom)
      moreover from lt d have "unat (zoom_level v) < 255" by simp
      ultimately have z: "unat (zoom_level c) = unat (zoom_level v) + 1"
        by (simp add: unat_zoom_succ)
      with lt Suc.prems show ?thesis
        by (intro Suc.IH) simp_all
    qed
    show ?thesis
      using True fold_traverse_Some [of "children v"
          "onTheFlyTraverse fuel refine (\<lambda>v acc. (children v, acc @ [v]))", OF kids]
      by simp
  qed
qed

lemma tiles_for_current_camera_position_returns:
  assumes "\<And>i. d \<le> unat (zoom_level i) \<Longrightarrow> \<not> should_refine_of rf s i"
    and "d \<le> 255" and "d < fuel"
  shows "tiles_for_current_camera_position fuel rf s \<noteq> None"
proof -
  have "onTheFlyTraverse fuel (should_refine_of rf s) (\<lambda>v acc. (children v, acc @ [v])) (Id 0 0 0) [] \<noteq> None"
    using assms by (intro onTheFlyTraverse_returns [where d = d]) simp_all
  then show ?thesis
    by (auto simp: tiles_for_current_camera_position_def split: option.splits)
qed

text \<open>
  What the traversal records, without reference to how it runs: when it returns, the
  recorded nodes are the inner nodes in preorder, and as a set they are the inner nodes
  of the specification.
\<close>

lemma inner_node_below:
  assumes "inner_node refine c x" and "c \<in> set (children v)" and "refine v"
  shows "inner_node refine v x"
  using assms
proof (induction rule: inner_node.induct)
  case at_root
  then show ?case
    using inner_node.at_root [of refine v] by (auto intro: inner_node.at_child)
next
  case (at_child w c')
  then show ?case by (auto intro: inner_node.at_child)
qed

lemma inner_node_cases:
  assumes "inner_node refine v x"
  shows "refine v \<and> (x = v \<or> (\<exists>c \<in> set (children v). inner_node refine c x))"
  using assms
proof (induction rule: inner_node.induct)
  case at_root
  then show ?case by simp
next
  case (at_child w c)
  then have r: "refine v" by simp
  from at_child.IH have "w = v \<or> (\<exists>c' \<in> set (children v). inner_node refine c' w)" by simp
  then show ?case
  proof
    assume "w = v"
    with at_child.hyps have "c \<in> set (children v)" "inner_node refine c c"
      by (auto intro: inner_node.at_root)
    with r show ?thesis by blast
  next
    assume "\<exists>c' \<in> set (children v). inner_node refine c' w"
    then obtain c' where c': "c' \<in> set (children v)" "inner_node refine c' w" by blast
    from c'(2) at_child.hyps have "inner_node refine c' c"
      by (auto intro: inner_node.at_child)
    with r c'(1) show ?thesis by blast
  qed
qed

lemma inner_node_unfold:
  "inner_node refine v x \<longleftrightarrow>
     refine v \<and> (x = v \<or> (\<exists>c \<in> set (children v). inner_node refine c x))"
  using inner_node_cases [of refine v x] inner_node_below [of refine _ x v]
    inner_node.at_root [of refine v]
  by blast

lemma inner_node_set:
  "{x. inner_node refine v x} =
     (if refine v then {v} \<union> (\<Union>c \<in> set (children v). {x. inner_node refine c x}) else {})"
  using inner_node_unfold [of refine v] by auto

lemma fold_traverse_records:
  assumes kids: "\<And>c st tmp st'. c \<in> set cs \<Longrightarrow> f c st = Some (tmp, st') \<Longrightarrow>
                   st' = st @ L c \<and> set st' = set st \<union> I c"
    and run: "fold (\<lambda>child acc.
           (case acc of None \<Rightarrow> None
            | Some (leaves, st2) \<Rightarrow>
                (case f child st2 of None \<Rightarrow> None | Some (tmp, st3) \<Rightarrow> Some (leaves @ tmp, st3))))
      cs (Some (lv, st)) = Some (lv', st')"
  shows "st' = st @ concat (map L cs) \<and> set st' = set st \<union> (\<Union>c \<in> set cs. I c)"
  using assms
proof (induction cs arbitrary: lv st)
  case Nil
  then show ?case by simp
next
  case (Cons c cs)
  show ?case
  proof (cases "f c st")
    case None
    with Cons.prems(2) show ?thesis by (simp add: fold_traverse_None)
  next
    case (Some r)
    obtain tmp st3 where r: "r = (tmp, st3)" by (cases r)
    from Some r have "f c st = Some (tmp, st3)" by simp
    have "c \<in> set (c # cs)" by simp
    note K = Cons.prems(1) [OF this \<open>f c st = Some (tmp, st3)\<close>]
    note one = K [THEN conjunct1] K [THEN conjunct2]
    from Cons.prems(2) Some r
    have rest: "fold (\<lambda>child acc.
           (case acc of None \<Rightarrow> None
            | Some (leaves, st2) \<Rightarrow>
                (case f child st2 of None \<Rightarrow> None | Some (tmp, st3) \<Rightarrow> Some (leaves @ tmp, st3))))
      cs (Some (lv @ tmp, st3)) = Some (lv', st')"
      by simp
    have two: "st' = st3 @ concat (map L cs) \<and> set st' = set st3 \<union> (\<Union>c \<in> set cs. I c)"
      by (rule Cons.IH [OF _ rest]) (use Cons.prems(1) in auto)
    have a: "st' = st @ concat (map L (c # cs))"
      using two [THEN conjunct1] one(1) by simp
    have b: "set st' = set st \<union> (\<Union>c \<in> set (c # cs). I c)"
      using two [THEN conjunct2] one(2) by auto
    from a b show ?thesis by (rule conjI)
  qed
qed

lemma onTheFlyTraverse_records:
  "onTheFlyTraverse fuel refine (\<lambda>v acc. (children v, acc @ [v])) v acc = Some (leaves, nodes) \<Longrightarrow>
     nodes = acc @ inner_nodes_preorder fuel refine v \<and>
     set nodes = set acc \<union> {x. inner_node refine v x}"
proof (induction fuel arbitrary: v acc leaves nodes)
  case 0
  then show ?case by simp
next
  case (Suc fuel)
  show ?case
  proof (cases "refine v")
    case False
    with Suc.prems have "nodes = acc" by simp
    with False show ?thesis by (simp add: inner_node_set)
  next
    case True
    with Suc.prems
    have run: "fold (\<lambda>child acc.
           (case acc of None \<Rightarrow> None
            | Some (leaves, st2) \<Rightarrow>
                (case onTheFlyTraverse fuel refine (\<lambda>v acc. (children v, acc @ [v])) child st2 of
                   None \<Rightarrow> None | Some (tmp, st3) \<Rightarrow> Some (leaves @ tmp, st3))))
      (children v) (Some ([], acc @ [v])) = Some (leaves, nodes)"
      by simp
    have two: "nodes = (acc @ [v]) @ concat (map (inner_nodes_preorder fuel refine) (children v)) \<and>
          set nodes = set (acc @ [v]) \<union> (\<Union>c \<in> set (children v). {x. inner_node refine c x})"
      by (rule fold_traverse_records [OF _ run]) (use Suc.IH in blast)
    have a: "nodes = acc @ inner_nodes_preorder (Suc fuel) refine v"
      using two [THEN conjunct1] True by simp
    have b: "set nodes = set acc \<union> {x. inner_node refine v x}"
      using two [THEN conjunct2] True by (simp add: inner_node_set [of refine v])
    from a b show ?thesis by (rule conjI)
  qed
qed

lemma tiles_for_current_camera_position_records:
  "tiles_for_current_camera_position fuel rf s = Some W \<Longrightarrow>
     W = inner_nodes_preorder fuel (should_refine_of rf s) (Id 0 0 0) \<and>
     set W = {x. inner_node (should_refine_of rf s) (Id 0 0 0) x}"
proof -
  assume "tiles_for_current_camera_position fuel rf s = Some W"
  then obtain leaves where
    "onTheFlyTraverse fuel (should_refine_of rf s) (\<lambda>v acc. (children v, acc @ [v])) (Id 0 0 0) []
       = Some (leaves, W)"
    by (auto simp: tiles_for_current_camera_position_def split: option.splits)
  note R = onTheFlyTraverse_records [OF this]
  have a: "W = inner_nodes_preorder fuel (should_refine_of rf s) (Id 0 0 0)"
    using R [THEN conjunct1] by simp
  have b: "set W = {x. inner_node (should_refine_of rf s) (Id 0 0 0) x}"
    using R [THEN conjunct2] by simp
  from a b show ?thesis by (rule conjI)
qed


text \<open>
  C1: when the traversal from the root (0,0,0) returns, the working set W it computes
  with the refinement predicate is the list of the inner nodes in preorder, and its
  elements are exactly the inner nodes of the quad tree under that predicate;
  \<open>send_quad_requests\<close> emits W without the ids that the RAM cache holds, in the order of
  W: an id is emitted if and only if it is an inner node and is not in the RAM cache.
  Nothing is emitted only when the traversal does not return, and it returns whenever
  the predicate fails from some depth on and the fuel exceeds that depth.
\<close>

theorem quads_requested_is_working_set_minus_ram:
  "(tiles_for_current_camera_position fuel refineFunctor s = None \<longrightarrow>
      send_quad_requests fuel refineFunctor s = None) \<and>
   (\<forall>W. tiles_for_current_camera_position fuel refineFunctor s = Some W \<longrightarrow>
      W = inner_nodes_preorder fuel (should_refine_of refineFunctor s) (Id 0 0 0) \<and>
      set W = {v. inner_node (should_refine_of refineFunctor s) (Id 0 0 0) v} \<and>
      (\<exists>ids. send_quad_requests fuel refineFunctor s = Some ids \<and>
         ids = filter (\<lambda>i. i \<notin> set (cache_ids quad_id (m_ram_cache s))) W \<and>
         set ids = {v. inner_node (should_refine_of refineFunctor s) (Id 0 0 0) v}
                     - set (cache_ids quad_id (m_ram_cache s)) \<and>
         (\<forall>i. i \<in> set ids \<longleftrightarrow>
                inner_node (should_refine_of refineFunctor s) (Id 0 0 0) i \<and>
                \<not> cache_contains quad_id (m_ram_cache s) i))) \<and>
   (\<forall>d. d \<le> 255 \<and> d < fuel \<and> (\<forall>i. d \<le> unat (zoom_level i) \<longrightarrow> \<not> should_refine_of refineFunctor s i)
      \<longrightarrow> send_quad_requests fuel refineFunctor s \<noteq> None)"
proof -
  let ?R = "should_refine_of refineFunctor s"
  have none: "send_quad_requests fuel refineFunctor s = None"
    if "tiles_for_current_camera_position fuel refineFunctor s = None"
    using that by (simp add: send_quad_requests_def)
  have some: "W = inner_nodes_preorder fuel ?R (Id 0 0 0) \<and>
      set W = {v. inner_node ?R (Id 0 0 0) v} \<and>
      (\<exists>ids. send_quad_requests fuel refineFunctor s = Some ids \<and>
         ids = filter (\<lambda>i. i \<notin> set (cache_ids quad_id (m_ram_cache s))) W \<and>
         set ids = {v. inner_node ?R (Id 0 0 0) v} - set (cache_ids quad_id (m_ram_cache s)) \<and>
         (\<forall>i. i \<in> set ids \<longleftrightarrow> inner_node ?R (Id 0 0 0) i \<and> \<not> cache_contains quad_id (m_ram_cache s) i))"
    if w: "tiles_for_current_camera_position fuel refineFunctor s = Some W" for W
  proof -
    note rec = tiles_for_current_camera_position_records [OF w]
    have list: "W = inner_nodes_preorder fuel ?R (Id 0 0 0)" by (rule rec [THEN conjunct1])
    have set: "set W = {v. inner_node ?R (Id 0 0 0) v}" by (rule rec [THEN conjunct2])
    let ?ids = "filter (\<lambda>i. i \<notin> set (cache_ids quad_id (m_ram_cache s))) W"
    have send: "send_quad_requests fuel refineFunctor s = Some ?ids"
      using w by (simp add: send_quad_requests_def cache_contains_def)
    have diff: "set ?ids = {v. inner_node ?R (Id 0 0 0) v} - set (cache_ids quad_id (m_ram_cache s))"
      using set by auto
    have mem: "\<forall>i. i \<in> set ?ids \<longleftrightarrow> inner_node ?R (Id 0 0 0) i \<and> \<not> cache_contains quad_id (m_ram_cache s) i"
      using diff by (auto simp: cache_contains_def)
    from list set send diff mem show ?thesis by blast
  qed
  have returns: "send_quad_requests fuel refineFunctor s \<noteq> None"
    if "d \<le> 255" "d < fuel" "\<forall>i. d \<le> unat (zoom_level i) \<longrightarrow> \<not> ?R i" for d
  proof -
    from that have "tiles_for_current_camera_position fuel refineFunctor s \<noteq> None"
      by (intro tiles_for_current_camera_position_returns [where d = d]) simp_all
    then show ?thesis
      by (auto simp: send_quad_requests_def split: option.splits)
  qed
  from none some returns show ?thesis by blast
qed

theorem quads_requested_is_working_set_minus_ram_witness:
  "tiles_for_current_camera_position 3 depth_refine (test_scheduler 2 [plain_quad (Id 0 0 0), plain_quad (Id 1 0 1)] 1 [])
     = Some [Id 0 0 0, Id 1 0 0, Id 1 1 0, Id 1 0 1, Id 1 1 1] \<and>
   cache_ids quad_id (m_ram_cache (test_scheduler 2 [plain_quad (Id 0 0 0), plain_quad (Id 1 0 1)] 1 []))
     = [Id 0 0 0, Id 1 0 1] \<and>
   send_quad_requests 3 depth_refine (test_scheduler 2 [plain_quad (Id 0 0 0), plain_quad (Id 1 0 1)] 1 [])
     = Some [Id 1 0 0, Id 1 1 0, Id 1 1 1] \<and>
   inner_nodes_preorder 3 (should_refine_of depth_refine
       (test_scheduler 2 [plain_quad (Id 0 0 0), plain_quad (Id 1 0 1)] 1 [])) (Id 0 0 0)
     = [Id 0 0 0, Id 1 0 0, Id 1 1 0, Id 1 0 1, Id 1 1 1] \<and>
   inner_node (should_refine_of depth_refine
       (test_scheduler 2 [plain_quad (Id 0 0 0), plain_quad (Id 1 0 1)] 1 [])) (Id 0 0 0) (Id 1 1 0) \<and>
   \<not> inner_node (should_refine_of depth_refine
       (test_scheduler 2 [plain_quad (Id 0 0 0), plain_quad (Id 1 0 1)] 1 [])) (Id 0 0 0) (Id 2 0 0)"
proof -
  let ?s = "test_scheduler 2 [plain_quad (Id 0 0 0), plain_quad (Id 1 0 1)] 1 []"
  let ?W = "[Id 0 0 0, Id 1 0 0, Id 1 1 0, Id 1 0 1, Id 1 1 1]"
  have q: "quad_id (plain_quad i) = i" for i
    by (simp add: plain_quad_def)
  have w: "tiles_for_current_camera_position 3 depth_refine ?s = Some ?W"
    by (simp add: tiles_for_current_camera_position_def test_scheduler_sel children_def numeral_3_eq_3)
  have ids: "cache_ids quad_id (m_ram_cache ?s) = [Id 0 0 0, Id 1 0 1]"
    by (simp add: cache_ids_def test_scheduler_sel cache_insert_def insert_one_def q)
  note T = quads_requested_is_working_set_minus_ram [of 3 depth_refine ?s, THEN conjunct2, THEN conjunct1,
      rule_format, OF w]
  have list: "inner_nodes_preorder 3 (should_refine_of depth_refine ?s) (Id 0 0 0) = ?W"
    using T [THEN conjunct1] by simp
  have set: "set ?W = {v. inner_node (should_refine_of depth_refine ?s) (Id 0 0 0) v}"
    by (rule T [THEN conjunct2, THEN conjunct1])
  have send: "send_quad_requests 3 depth_refine ?s = Some [Id 1 0 0, Id 1 1 0, Id 1 1 1]"
    using T [THEN conjunct2, THEN conjunct2] unfolding ids by auto
  have "Id 1 1 0 \<in> set ?W" by simp
  then have yes: "inner_node (should_refine_of depth_refine ?s) (Id 0 0 0) (Id 1 1 0)"
    unfolding set by simp
  have "Id 2 0 0 \<notin> set ?W" by simp
  then have no: "\<not> inner_node (should_refine_of depth_refine ?s) (Id 0 0 0) (Id 2 0 0)"
    unfolding set by simp
  from w ids send list yes no show ?thesis by (intro conjI)
qed

section \<open>The signal gpu_quads_updated\<close>

text \<open>
  C2: in every emission of \<open>gpu_quads_updated(added, removed)\<close> no id is both the id of a
  quad of \<open>added\<close> and an element of \<open>removed\<close>. Moreover, when the ids of the RAM cache
  are distinct (the cache is a mapping), a quad that the pass promotes and whose id the
  purge of the shadow cache evicts in the same pass is in neither list: its id is not
  the id of a quad of \<open>added\<close> and is not in \<open>removed\<close>.
\<close>

theorem added_and_removed_are_disjoint:
  "gpu_quad_id ` set (fst (snd (update_gpu_quads refineFunctor toQImage qImage2uint16Raster s))) \<inter>
     snd (snd (update_gpu_quads refineFunctor toQImage qImage2uint16Raster s)) = {} \<and>
   (distinct (cache_ids quad_id (m_ram_cache s)) \<longrightarrow>
     (\<forall>g \<in> set (snd (promote_quads refineFunctor toQImage qImage2uint16Raster s)).
        gpu_quad_id g \<in> info_id ` set (snd (update_gpu_cache refineFunctor s
                           (snd (promote_quads refineFunctor toQImage qImage2uint16Raster s)))) \<longrightarrow>
          gpu_quad_id g \<notin>
            gpu_quad_id ` set (fst (snd (update_gpu_quads refineFunctor toQImage qImage2uint16Raster s))) \<and>
          gpu_quad_id g \<notin> snd (snd (update_gpu_quads refineFunctor toQImage qImage2uint16Raster s))))"
proof -
  let ?new = "snd (promote_quads refineFunctor toQImage qImage2uint16Raster s)"
  let ?sup = "info_id ` set (snd (update_gpu_cache refineFunctor s ?new))"
  let ?out = "snd (update_gpu_quads refineFunctor toQImage qImage2uint16Raster s)"
  have out: "?out = erase_superfluous ?new ?sup"
    by (rule update_gpu_quads_signal)
  then have "erase_superfluous ?new ?sup = (fst ?out, snd ?out)" by simp
  from erase_superfluous_sound [OF this]
  have disjoint: "gpu_quad_id ` set (fst ?out) \<inter> snd ?out = {}" by simp
  have evicted: "gpu_quad_id g \<notin> gpu_quad_id ` set (fst ?out) \<and> gpu_quad_id g \<notin> snd ?out"
    if d: "distinct (cache_ids quad_id (m_ram_cache s))" and g: "g \<in> set ?new" "gpu_quad_id g \<in> ?sup" for g
  proof -
    from d have "distinct (map gpu_quad_id ?new)" by (rule promoted_distinct)
    from erase_superfluous_distinct [OF this, of ?sup]
    have "?out = (filter (\<lambda>q. gpu_quad_id q \<notin> ?sup) ?new, ?sup - gpu_quad_id ` set ?new)"
      by (simp only: out)
    then have "fst ?out = filter (\<lambda>q. gpu_quad_id q \<notin> ?sup) ?new"
      and "snd ?out = ?sup - gpu_quad_id ` set ?new"
      by simp_all
    with g show ?thesis by auto
  qed
  from disjoint evicted show ?thesis by blast
qed

theorem added_and_removed_are_disjoint_witness:
  "distinct (cache_ids quad_id (m_ram_cache (test_scheduler 2 [plain_quad (Id 0 0 0), plain_quad (Id 1 1 0)] 1 []))) \<and>
   map gpu_quad_id (snd (promote_quads depth_refine magic_toQImage bytes_raster
       (test_scheduler 2 [plain_quad (Id 0 0 0), plain_quad (Id 1 1 0)] 1 []))) = [Id 0 0 0, Id 1 1 0] \<and>
   info_id ` set (snd (update_gpu_cache depth_refine
       (test_scheduler 2 [plain_quad (Id 0 0 0), plain_quad (Id 1 1 0)] 1 [])
       (snd (promote_quads depth_refine magic_toQImage bytes_raster
          (test_scheduler 2 [plain_quad (Id 0 0 0), plain_quad (Id 1 1 0)] 1 []))))) = {Id 0 0 0} \<and>
   Id 0 0 0 \<notin> gpu_quad_id ` set (fst (snd (update_gpu_quads depth_refine magic_toQImage bytes_raster
       (test_scheduler 2 [plain_quad (Id 0 0 0), plain_quad (Id 1 1 0)] 1 [])))) \<and>
   Id 0 0 0 \<notin> snd (snd (update_gpu_quads depth_refine magic_toQImage bytes_raster
       (test_scheduler 2 [plain_quad (Id 0 0 0), plain_quad (Id 1 1 0)] 1 []))) \<and>
   gpu_quad_id ` set (fst (snd (update_gpu_quads depth_refine magic_toQImage bytes_raster
       (test_scheduler 2 [plain_quad (Id 0 0 0), plain_quad (Id 1 1 0)] 1 [])))) \<inter>
     snd (snd (update_gpu_quads depth_refine magic_toQImage bytes_raster
       (test_scheduler 2 [plain_quad (Id 0 0 0), plain_quad (Id 1 1 0)] 1 []))) = {}"
proof -
  let ?s = "test_scheduler 2 [plain_quad (Id 0 0 0), plain_quad (Id 1 1 0)] 1 []"
  let ?new = "snd (promote_quads depth_refine magic_toQImage bytes_raster ?s)"
  let ?g = "create_gpu_quad magic_toQImage bytes_raster ?s (plain_quad (Id 0 0 0))"
  have q: "quad_id (plain_quad i) = i" for i
    by (simp add: plain_quad_def)
  have ids: "cache_ids quad_id (m_ram_cache ?s) = [Id 0 0 0, Id 1 1 0]"
    by (simp add: cache_ids_def test_scheduler_sel cache_insert_def insert_one_def q)
  then have d: "distinct (cache_ids quad_id (m_ram_cache ?s))" by simp
  have new: "?new = [?g, create_gpu_quad magic_toQImage bytes_raster ?s (plain_quad (Id 1 1 0))]"
    by (simp add: promote_quads_eq wanted_def cache_contains_def cache_ids_def cache_insert_def
        insert_one_def test_scheduler_sel q)
  then have nids: "map gpu_quad_id ?new = [Id 0 0 0, Id 1 1 0]"
    by (simp add: q)
  have sup: "info_id ` set (snd (update_gpu_cache depth_refine ?s ?new)) = {Id 0 0 0}"
    unfolding new
    by (simp add: update_gpu_cache_def cache_visit_pure cache_insert_def insert_one_def cache_purge_def
        test_scheduler_sel q)
  have g: "?g \<in> set ?new" "gpu_quad_id ?g \<in> info_id ` set (snd (update_gpu_cache depth_refine ?s ?new))"
    using new sup by (simp_all add: q)
  have gid: "gpu_quad_id ?g = Id 0 0 0"
    by (simp add: q)
  note T = added_and_removed_are_disjoint [of depth_refine magic_toQImage bytes_raster ?s]
  note A = T [THEN conjunct1]
  note B = T [THEN conjunct2, rule_format, OF d g, unfolded gid]
  from d nids sup B A show ?thesis by (intro conjI) blast+
qed

section \<open>Two consecutive update passes\<close>

lemma marked_by_ids:
  "marked R es = map (\<lambda>i. \<lparr>obj_data = \<lparr>info_id = i\<rparr>, obj_useful = R i\<rparr>) (map (\<lambda>e. info_id (obj_data e)) es)"
  by (induction es) (simp_all add: marked_def)

lemma marked_insert_one:
  "marked R (insert_one info_id x es) =
     filter (\<lambda>e. info_id (obj_data e) \<noteq> info_id x) (marked R es) @
       [\<lparr>obj_data = x, obj_useful = R (info_id x)\<rparr>]"
  by (simp add: marked_def insert_one_def filter_map comp_def)

lemma marked_fold_insert:
  "marked R es = marked R es' \<Longrightarrow>
     marked R (fold (insert_one info_id) xs es) = marked R (fold (insert_one info_id) xs es')"
proof (induction xs arbitrary: es es')
  case Nil
  then show ?case by simp
next
  case (Cons x xs)
  have "marked R (insert_one info_id x es) = marked R (insert_one info_id x es')"
    by (simp only: marked_insert_one Cons.prems)
  from Cons.IH [OF this] show ?case by simp
qed










section \<open>The tiles of a promoted quad\<close>

text \<open>
  C6: for every quad promoted to the GPU by \<open>update_gpu_quads\<close> (every quad the functor
  makes, and so every quad of the list \<open>added\<close> of the signal) there is a quad of the RAM
  cache with the same id such that, for every child i below \<open>n_tiles\<close> (at most 4, the
  size of the array), the GPU tile i is written and: when the ortho payload is nil its
  image is decoded from the default ortho blob; when the height payload is nil its raster
  is decoded from the default height blob; and the raster is decoded from the height
  payload (or the default height blob) whatever the ortho payload is. The function has
  no error path.
\<close>

theorem promoted_tiles_use_default_blobs:
  assumes "g \<in> set (snd (promote_quads refineFunctor toQImage qImage2uint16Raster s)) \<union>
               set (fst (snd (update_gpu_quads refineFunctor toQImage qImage2uint16Raster s)))"
  shows "\<exists>quad \<in> obj_data ` set (m_data (m_ram_cache s)).
           gpu_quad_id g = quad_id quad \<and>
           (n_tiles quad \<le> 4 \<longrightarrow>
             (\<forall>i < n_tiles quad. \<exists>t.
                gpu_tiles g ! i = Some t \<and>
                gpu_tile_id t = tile_id (tiles quad ! i) \<and>
                (ortho (tiles quad ! i) = None \<longrightarrow> gpu_ortho t = toQImage (m_default_ortho_tile s)) \<and>
                (height (tiles quad ! i) = None \<longrightarrow>
                   gpu_height t = qImage2uint16Raster (toQImage (m_default_height_tile s))) \<and>
                gpu_height t = qImage2uint16Raster (toQImage
                   (case height (tiles quad ! i) of None \<Rightarrow> m_default_height_tile s | Some b \<Rightarrow> b))))"
proof -
  from promoted_or_added_from_ram [OF assms] obtain quad
    where q: "quad \<in> obj_data ` set (m_data (m_ram_cache s))"
      and g: "g = create_gpu_quad toQImage qImage2uint16Raster s quad"
    by blast
  have "\<exists>t. gpu_tiles g ! i = Some t \<and>
            gpu_tile_id t = tile_id (tiles quad ! i) \<and>
            (ortho (tiles quad ! i) = None \<longrightarrow> gpu_ortho t = toQImage (m_default_ortho_tile s)) \<and>
            (height (tiles quad ! i) = None \<longrightarrow>
               gpu_height t = qImage2uint16Raster (toQImage (m_default_height_tile s))) \<and>
            gpu_height t = qImage2uint16Raster (toQImage
               (case height (tiles quad ! i) of None \<Rightarrow> m_default_height_tile s | Some b \<Rightarrow> b))"
    if "n_tiles quad \<le> 4" "i < n_tiles quad" for i
    using create_gpu_quad_tile [OF that, of toQImage qImage2uint16Raster s]
    by (simp add: g create_gpu_tile_def)
  with q g show ?thesis
    by (intro bexI [of _ quad]) simp_all
qed

theorem promoted_tiles_use_default_blobs_witness:
  "create_gpu_quad magic_toQImage bytes_raster (test_scheduler 2 [plain_quad (Id 0 0 0)] 1 []) (plain_quad (Id 0 0 0))
     \<in> set (fst (snd (update_gpu_quads depth_refine magic_toQImage bytes_raster
                (test_scheduler 2 [plain_quad (Id 0 0 0)] 1 [])))) \<and>
   (\<exists>t. gpu_tiles (create_gpu_quad magic_toQImage bytes_raster
               (test_scheduler 2 [plain_quad (Id 0 0 0)] 1 []) (plain_quad (Id 0 0 0))) ! 2 = Some t \<and>
        gpu_tile_id t = Id 1 0 1 \<and> gpu_ortho t = Some [255] \<and> gpu_height t = [0])"
proof -
  let ?s = "test_scheduler 2 [plain_quad (Id 0 0 0)] 1 []"
  let ?g = "create_gpu_quad magic_toQImage bytes_raster ?s (plain_quad (Id 0 0 0))"
  have ram: "obj_data ` set (m_data (m_ram_cache ?s)) = {plain_quad (Id 0 0 0)}"
    by (simp add: test_scheduler_sel cache_insert_def insert_one_def)
  have q: "quad_id (plain_quad (Id 0 0 0)) = Id 0 0 0" "n_tiles (plain_quad (Id 0 0 0)) = 4"
    "tiles (plain_quad (Id 0 0 0)) ! 2 = \<lparr>tile_id = Id 1 0 1, ortho = None, height = None\<rparr>"
    by (simp_all add: plain_quad_def children_def)
  have r: "fst (snd (update_gpu_quads depth_refine magic_toQImage bytes_raster ?s)) = [?g]"
    by (simp add: update_gpu_quads_def promote_quads_eq update_gpu_cache_def cache_visit_pure
        cache_purge_def wanted_def cache_contains_def cache_ids_def cache_insert_def insert_one_def
        test_scheduler_sel q)
  then have "?g \<in> set (snd (promote_quads depth_refine magic_toQImage bytes_raster ?s)) \<union>
               set (fst (snd (update_gpu_quads depth_refine magic_toQImage bytes_raster ?s)))"
    by simp
  from promoted_tiles_use_default_blobs [OF this]
  have "\<forall>i<4. \<exists>t. gpu_tiles ?g ! i = Some t \<and>
           gpu_tile_id t = tile_id (tiles (plain_quad (Id 0 0 0)) ! i) \<and>
           (ortho (tiles (plain_quad (Id 0 0 0)) ! i) = None \<longrightarrow>
              gpu_ortho t = magic_toQImage (m_default_ortho_tile ?s)) \<and>
           (height (tiles (plain_quad (Id 0 0 0)) ! i) = None \<longrightarrow>
              gpu_height t = bytes_raster (magic_toQImage (m_default_height_tile ?s)))"
    unfolding ram by (simp add: q(1,2)) blast
  from this [rule_format, of 2]
  have "\<exists>t. gpu_tiles ?g ! 2 = Some t \<and> gpu_tile_id t = Id 1 0 1 \<and>
           gpu_ortho t = magic_toQImage (m_default_ortho_tile ?s) \<and>
           gpu_height t = bytes_raster (magic_toQImage (m_default_height_tile ?s))"
    by (simp add: q(3))
  then have "\<exists>t. gpu_tiles ?g ! 2 = Some t \<and> gpu_tile_id t = Id 1 0 1 \<and> gpu_ortho t = Some [255] \<and>
           gpu_height t = [0]"
    by (simp add: magic_toQImage_def bytes_raster_def test_scheduler_sel)
  with r show ?thesis by simp
qed

text \<open>
  C5 (as stated, refuted): the first child of the quad has the ortho payload [0, 1], which
  is present and which the decoder does not accept (it gives the null image); the
  default ortho blob decodes to the image [255]. \<open>update_gpu_quads\<close> promotes the quad
  and the image of its first tile is the null image, not the image of the default
  blob that the three other tiles (nil payloads) get.
\<close>

theorem malformed_payload_counterexample:
  "ortho (tiles malformed_quad ! 0) = Some [0, 1] \<and>
   magic_toQImage [0, 1] = None \<and>
   magic_toQImage (m_default_ortho_tile (test_scheduler 2 [malformed_quad] 1 [])) = Some [255] \<and>
   map (\<lambda>g. map (map_option gpu_ortho) (gpu_tiles g))
     (fst (snd (update_gpu_quads depth_refine magic_toQImage bytes_raster
                  (test_scheduler 2 [malformed_quad] 1 []))))
     = [[Some None, Some (Some [255]), Some (Some [255]), Some (Some [255])]]"
proof -
  let ?s = "test_scheduler 2 [malformed_quad] 1 []"
  let ?g = "create_gpu_quad magic_toQImage bytes_raster ?s malformed_quad"
  have q: "quad_id malformed_quad = Id 0 0 0"
    by (simp add: malformed_quad_def)
  have r: "fst (snd (update_gpu_quads depth_refine magic_toQImage bytes_raster ?s)) = [?g]"
    by (simp add: update_gpu_quads_def promote_quads_eq update_gpu_cache_def cache_visit_pure
        cache_purge_def wanted_def cache_contains_def cache_ids_def cache_insert_def insert_one_def
        test_scheduler_sel q)
  have g: "map (map_option gpu_ortho) (gpu_tiles ?g) = [Some None, Some (Some [255]), Some (Some [255]), Some (Some [255])]"
    by (simp add: create_gpu_quad_tiles malformed_quad_def upt_4 create_gpu_tile_def magic_toQImage_def
        test_scheduler_sel)
  have d: "map (\<lambda>g. map (map_option gpu_ortho) (gpu_tiles g))
             (fst (snd (update_gpu_quads depth_refine magic_toQImage bytes_raster ?s)))
           = [[Some None, Some (Some [255]), Some (Some [255]), Some (Some [255])]]"
    unfolding r using g by simp
  have a: "ortho (tiles malformed_quad ! 0) = Some [0, 1]"
    by (simp add: malformed_quad_def)
  have b: "magic_toQImage [0, 1] = None"
    "magic_toQImage (m_default_ortho_tile ?s) = Some [255]"
    by (simp_all add: magic_toQImage_def test_scheduler_sel)
  from a b d show ?thesis by (intro conjI)
qed

text \<open>
  C5 (amended): a payload that is present is handed to the decoder as it is, decodable
  or not: for every promoted quad and every child i below \<open>n_tiles\<close> (at most 4), the
  ortho image of GPU tile i is \<open>toQImage\<close> of the ortho bytes, and its height raster is
  \<open>qImage2uint16Raster (toQImage bytes)\<close> of the height bytes. The default blobs stand in
  for nil payloads only.
\<close>

theorem promoted_tiles_decode_present_payloads:
  assumes "g \<in> set (snd (promote_quads refineFunctor toQImage qImage2uint16Raster s)) \<union>
               set (fst (snd (update_gpu_quads refineFunctor toQImage qImage2uint16Raster s)))"
  shows "\<exists>quad \<in> obj_data ` set (m_data (m_ram_cache s)).
           gpu_quad_id g = quad_id quad \<and>
           (n_tiles quad \<le> 4 \<longrightarrow>
             (\<forall>i < n_tiles quad. \<exists>t.
                gpu_tiles g ! i = Some t \<and>
                (\<forall>b. ortho (tiles quad ! i) = Some b \<longrightarrow> gpu_ortho t = toQImage b) \<and>
                (\<forall>b. height (tiles quad ! i) = Some b \<longrightarrow>
                   gpu_height t = qImage2uint16Raster (toQImage b))))"
proof -
  from promoted_or_added_from_ram [OF assms] obtain quad
    where q: "quad \<in> obj_data ` set (m_data (m_ram_cache s))"
      and g: "g = create_gpu_quad toQImage qImage2uint16Raster s quad"
    by blast
  have "\<exists>t. gpu_tiles g ! i = Some t \<and>
            (\<forall>b. ortho (tiles quad ! i) = Some b \<longrightarrow> gpu_ortho t = toQImage b) \<and>
            (\<forall>b. height (tiles quad ! i) = Some b \<longrightarrow> gpu_height t = qImage2uint16Raster (toQImage b))"
    if "n_tiles quad \<le> 4" "i < n_tiles quad" for i
    using create_gpu_quad_tile [OF that, of toQImage qImage2uint16Raster s]
    by (simp add: g create_gpu_tile_def)
  with q g show ?thesis
    by (intro bexI [of _ quad]) simp_all
qed

theorem promoted_tiles_decode_present_payloads_witness:
  "create_gpu_quad magic_toQImage bytes_raster (test_scheduler 2 [malformed_quad] 1 []) malformed_quad
     \<in> set (fst (snd (update_gpu_quads depth_refine magic_toQImage bytes_raster
                (test_scheduler 2 [malformed_quad] 1 [])))) \<and>
   (\<exists>t. gpu_tiles (create_gpu_quad magic_toQImage bytes_raster
               (test_scheduler 2 [malformed_quad] 1 []) malformed_quad) ! 0 = Some t \<and>
        gpu_ortho t = magic_toQImage [0, 1])"
proof -
  let ?s = "test_scheduler 2 [malformed_quad] 1 []"
  let ?g = "create_gpu_quad magic_toQImage bytes_raster ?s malformed_quad"
  have ram: "obj_data ` set (m_data (m_ram_cache ?s)) = {malformed_quad}"
    by (simp add: test_scheduler_sel cache_insert_def insert_one_def)
  have q: "quad_id malformed_quad = Id 0 0 0" "n_tiles malformed_quad = 4"
    "ortho (tiles malformed_quad ! 0) = Some [0, 1]"
    by (simp_all add: malformed_quad_def)
  have r: "fst (snd (update_gpu_quads depth_refine magic_toQImage bytes_raster ?s)) = [?g]"
    by (simp add: update_gpu_quads_def promote_quads_eq update_gpu_cache_def cache_visit_pure
        cache_purge_def wanted_def cache_contains_def cache_ids_def cache_insert_def insert_one_def
        test_scheduler_sel q)
  then have "?g \<in> set (snd (promote_quads depth_refine magic_toQImage bytes_raster ?s)) \<union>
               set (fst (snd (update_gpu_quads depth_refine magic_toQImage bytes_raster ?s)))"
    by simp
  from promoted_tiles_decode_present_payloads [OF this]
  have "\<forall>i<4. \<exists>t. gpu_tiles ?g ! i = Some t \<and>
           (\<forall>b. ortho (tiles malformed_quad ! i) = Some b \<longrightarrow> gpu_ortho t = magic_toQImage b)"
    unfolding ram by (simp add: q(1,2)) blast
  from this [rule_format, of 0]
  have "\<exists>t. gpu_tiles ?g ! 0 = Some t \<and> gpu_ortho t = magic_toQImage [0, 1]"
    by (simp add: q(3))
  with r show ?thesis by simp
qed

section \<open>The RAM cache after update_gpu_quads\<close>

text \<open>
  C10: every run of \<open>update_gpu_quads\<close> rewrites the useful flag of every entry of the RAM
  cache: after it the flag of an entry is the value of the refinement predicate on the
  id of the entry (not useful when the id fails the predicate, useful when it passes).
  The stored quads, the cached ids and their order, the capacity and the number of
  entries are unchanged: the function purges nothing from the RAM cache.
\<close>

theorem update_gpu_quads_rewrites_useful_flags:
  "map obj_useful (m_data (m_ram_cache (fst (update_gpu_quads refineFunctor toQImage qImage2uint16Raster s))))
     = map (\<lambda>e. should_refine_of refineFunctor s (quad_id (obj_data e))) (m_data (m_ram_cache s)) \<and>
   map obj_data (m_data (m_ram_cache (fst (update_gpu_quads refineFunctor toQImage qImage2uint16Raster s))))
     = map obj_data (m_data (m_ram_cache s)) \<and>
   cache_ids quad_id (m_ram_cache (fst (update_gpu_quads refineFunctor toQImage qImage2uint16Raster s)))
     = cache_ids quad_id (m_ram_cache s) \<and>
   m_capacity (m_ram_cache (fst (update_gpu_quads refineFunctor toQImage qImage2uint16Raster s)))
     = m_capacity (m_ram_cache s) \<and>
   n_cached_objects (m_ram_cache (fst (update_gpu_quads refineFunctor toQImage qImage2uint16Raster s)))
     = n_cached_objects (m_ram_cache s)"
  by (simp add: update_gpu_quads_ram cache_ids_def n_cached_objects_def comp_def)

theorem update_gpu_quads_rewrites_useful_flags_witness:
  "map obj_useful (m_data (m_ram_cache (test_scheduler 1 [plain_quad (Id 0 0 0), plain_quad (Id 1 1 0)] 1 [])))
     = [True, True] \<and>
   map obj_useful (m_data (m_ram_cache (fst (update_gpu_quads depth_refine magic_toQImage bytes_raster
       (test_scheduler 1 [plain_quad (Id 0 0 0), plain_quad (Id 1 1 0)] 1 [])))))
     = [True, False] \<and>
   cache_ids quad_id (m_ram_cache (fst (update_gpu_quads depth_refine magic_toQImage bytes_raster
       (test_scheduler 1 [plain_quad (Id 0 0 0), plain_quad (Id 1 1 0)] 1 []))))
     = [Id 0 0 0, Id 1 1 0]"
  using update_gpu_quads_rewrites_useful_flags [of depth_refine magic_toQImage bytes_raster
      "test_scheduler 1 [plain_quad (Id 0 0 0), plain_quad (Id 1 1 0)] 1 []"]
  by (simp add: test_scheduler_def cache_insert_def insert_one_def plain_quad_def cache_ids_def
      should_refine_of_def depth_refine_def)

section \<open>The purge pass\<close>

text \<open>The unfolding of \<open>bit_length\<close> on a positive argument, for evaluation.\<close>

lemma bit_length_0: "bit_length 0 = 0"
  by (simp add: bit_length.simps)

lemma bit_length_pos: "0 < n \<Longrightarrow> bit_length n = Suc (bit_length (n div 2))"
  by (subst bit_length.simps) simp

lemma purge_ram_cache_runs:
  assumes "purge_threshold (m_ram_quad_limit s) = Some threshold"
    and "threshold \<le> n_cached_objects (m_ram_cache s)"
  shows "purge_ram_cache rf s =
           Inr (s\<lparr>m_ram_cache := fst (cache_purge ((m_ram_cache s)
                  \<lparr>m_data := map (\<lambda>e. e\<lparr>obj_useful := should_refine_of rf s (quad_id (obj_data e))\<rparr>)
                               (m_data (m_ram_cache s))\<rparr>))\<rparr>)"
  using assms by (simp add: purge_ram_cache_def cache_visit_pure Let_def)

lemma slack_scheduler_sel:
  "m_ram_quad_limit slack_scheduler = 11"
  "m_capacity (m_ram_cache slack_scheduler) = 11"
  "length (m_data (m_ram_cache slack_scheduler)) = 12"
proof -
  have q: "quad_id (plain_quad i) = i" for i
    by (simp add: plain_quad_def)
  show "m_ram_quad_limit slack_scheduler = 11" "m_capacity (m_ram_cache slack_scheduler) = 11"
    by (simp_all add: slack_scheduler_def set_ram_quad_limit_def set_capacity_def test_scheduler_def
        cache_insert_def)
  show "length (m_data (m_ram_cache slack_scheduler)) = 12"
    by (simp add: slack_scheduler_def set_ram_quad_limit_def set_capacity_def test_scheduler_sel
        cache_insert_def twelve_quads_def insert_one_def q)
qed

lemma purge_threshold_11: "purge_threshold 11 = Some 12"
  by (simp add: purge_threshold_def round_to_float_def bit_length_0 bit_length_pos Let_def)

text \<open>
  C7 (as stated, refuted): the RAM limit and the capacity are 11 and the cache holds 12
  quads, so n < 1.1 x limit (12 < 12.1) and the specification says the pass does
  nothing. The threshold of the program is \<open>unsigned(float(11) * 1.1f)\<close> = 12, the test
  12 < 12 fails, and the pass visits and purges: one quad is evicted.
\<close>

theorem purge_below_slack_counterexample:
  "n_cached_objects (m_ram_cache slack_scheduler) = 12 \<and>
   m_ram_quad_limit slack_scheduler = 11 \<and>
   m_capacity (m_ram_cache slack_scheduler) = 11 \<and>
   spec_below_slack 12 11 \<and>
   map_sum id (\<lambda>s. n_cached_objects (m_ram_cache s)) (purge_ram_cache depth_refine slack_scheduler)
     = Inr 11"
proof -
  let ?visited = "(m_ram_cache slack_scheduler)
        \<lparr>m_data := map (\<lambda>e. e\<lparr>obj_useful := should_refine_of depth_refine slack_scheduler (quad_id (obj_data e))\<rparr>)
                     (m_data (m_ram_cache slack_scheduler))\<rparr>"
  have t: "purge_threshold (m_ram_quad_limit slack_scheduler) = Some 12"
    by (simp add: slack_scheduler_sel purge_threshold_11)
  have n: "n_cached_objects (m_ram_cache slack_scheduler) = 12"
    by (simp add: n_cached_objects_def slack_scheduler_sel)
  have "purge_ram_cache depth_refine slack_scheduler =
          Inr (slack_scheduler\<lparr>m_ram_cache := fst (cache_purge ?visited)\<rparr>)"
    by (rule purge_ram_cache_runs [OF t]) (simp add: n)
  moreover have "n_cached_objects (fst (cache_purge ?visited)) = m_capacity ?visited"
    by (rule cache_purge_size_eq) (simp add: slack_scheduler_sel)
  ultimately have "map_sum id (\<lambda>s. n_cached_objects (m_ram_cache s))
      (purge_ram_cache depth_refine slack_scheduler) = Inr 11"
    by (simp add: slack_scheduler_sel)
  with n show ?thesis
    by (simp add: slack_scheduler_sel spec_below_slack_def)
qed

text \<open>
  C7 (amended): let t be \<open>unsigned(float(m_ram_quad_limit) * 1.1f)\<close>, the product in
  single precision, truncated. When the RAM cache holds fewer than t entries the pass
  changes nothing. When it holds t or more, the pass first visits the RAM cache, which
  sets the useful flag of every entry to the value of the refinement predicate on the
  id of the entry, and then purges it: afterwards the cache holds at most its capacity
  and every entry that stays has that flag. When the product does not fit in an
  unsigned, the conversion is undefined.
\<close>

theorem purge_ram_cache_threshold:
  "(purge_threshold (m_ram_quad_limit s) = None \<longrightarrow>
      purge_ram_cache refineFunctor s = Inl UndefinedConversion) \<and>
   (\<forall>threshold. purge_threshold (m_ram_quad_limit s) = Some threshold \<longrightarrow>
      (n_cached_objects (m_ram_cache s) < threshold \<longrightarrow> purge_ram_cache refineFunctor s = Inr s) \<and>
      (threshold \<le> n_cached_objects (m_ram_cache s) \<longrightarrow>
         (\<exists>s'. purge_ram_cache refineFunctor s = Inr s' \<and>
            s' = s\<lparr>m_ram_cache := fst (cache_purge (fst (cache_visit
                     (\<lambda>quad u. (should_refine_of refineFunctor s (quad_id quad), u)) (m_ram_cache s) ())))\<rparr> \<and>
            fst (cache_visit (\<lambda>quad u. (should_refine_of refineFunctor s (quad_id quad), u))
                   (m_ram_cache s) ()) =
              (m_ram_cache s)\<lparr>m_data :=
                 map (\<lambda>e. e\<lparr>obj_useful := should_refine_of refineFunctor s (quad_id (obj_data e))\<rparr>)
                   (m_data (m_ram_cache s))\<rparr> \<and>
            n_cached_objects (m_ram_cache s') \<le> m_capacity (m_ram_cache s) \<and>
            (\<forall>e \<in> set (m_data (m_ram_cache s')).
               obj_useful e = should_refine_of refineFunctor s (quad_id (obj_data e))))))"
proof -
  let ?R = "should_refine_of refineFunctor s"
  let ?visited = "(m_ram_cache s)\<lparr>m_data := map (\<lambda>e. e\<lparr>obj_useful := ?R (quad_id (obj_data e))\<rparr>)
                                               (m_data (m_ram_cache s))\<rparr>"
  have none: "purge_ram_cache refineFunctor s = Inl UndefinedConversion"
    if "purge_threshold (m_ram_quad_limit s) = None"
    using that by (simp add: purge_ram_cache_def)
  have below: "purge_ram_cache refineFunctor s = Inr s"
    if "purge_threshold (m_ram_quad_limit s) = Some threshold"
      "n_cached_objects (m_ram_cache s) < threshold" for threshold
    using that by (simp add: purge_ram_cache_def)
  have size: "n_cached_objects (fst (cache_purge ?visited)) \<le> m_capacity (m_ram_cache s)"
    using cache_purge_size [of ?visited] by simp
  have flags: "obj_useful e = ?R (quad_id (obj_data e))" if "e \<in> set (m_data (fst (cache_purge ?visited)))" for e
  proof -
    from that cache_purge_kept_subset [of ?visited] have "e \<in> set (m_data ?visited)" by blast
    then show ?thesis by auto
  qed
  have above: "\<exists>s'. purge_ram_cache refineFunctor s = Inr s' \<and>
            s' = s\<lparr>m_ram_cache := fst (cache_purge (fst (cache_visit
                     (\<lambda>quad u. (?R (quad_id quad), u)) (m_ram_cache s) ())))\<rparr> \<and>
            fst (cache_visit (\<lambda>quad u. (?R (quad_id quad), u)) (m_ram_cache s) ()) = ?visited \<and>
            n_cached_objects (m_ram_cache s') \<le> m_capacity (m_ram_cache s) \<and>
            (\<forall>e \<in> set (m_data (m_ram_cache s')). obj_useful e = ?R (quad_id (obj_data e)))"
    if "purge_threshold (m_ram_quad_limit s) = Some threshold"
      "threshold \<le> n_cached_objects (m_ram_cache s)" for threshold
    using purge_ram_cache_runs [OF that, of refineFunctor] size flags
    by (simp add: cache_visit_pure)
  from none below above show ?thesis by blast
qed

theorem purge_ram_cache_threshold_witness:
  "purge_threshold (m_ram_quad_limit slack_scheduler) = Some 12 \<and>
   n_cached_objects (m_ram_cache slack_scheduler) = 12 \<and>
   (\<exists>s'. purge_ram_cache depth_refine slack_scheduler = Inr s' \<and>
         n_cached_objects (m_ram_cache s') \<le> 11) \<and>
   purge_threshold (m_ram_quad_limit (set_ram_quad_limit 15 slack_scheduler)) = Some 16 \<and>
   purge_ram_cache depth_refine (set_ram_quad_limit 15 slack_scheduler) =
     Inr (set_ram_quad_limit 15 slack_scheduler)"
proof -
  have t: "purge_threshold (m_ram_quad_limit slack_scheduler) = Some 12"
    by (simp add: slack_scheduler_sel purge_threshold_11)
  have n: "n_cached_objects (m_ram_cache slack_scheduler) = 12"
    by (simp add: n_cached_objects_def slack_scheduler_sel)
  have t15: "purge_threshold (m_ram_quad_limit (set_ram_quad_limit 15 slack_scheduler)) = Some 16"
    by (simp add: set_ram_quad_limit_def purge_threshold_def round_to_float_def bit_length_0
        bit_length_pos Let_def)
  have n15: "n_cached_objects (m_ram_cache (set_ram_quad_limit 15 slack_scheduler)) = 12"
    by (simp add: n_cached_objects_def set_ram_quad_limit_def set_capacity_def slack_scheduler_sel)
  note T = purge_ram_cache_threshold [of slack_scheduler depth_refine, THEN conjunct2, rule_format, OF t]
  note U = purge_ram_cache_threshold [of "set_ram_quad_limit 15 slack_scheduler" depth_refine,
      THEN conjunct2, rule_format, OF t15]
  have a: "\<exists>s'. purge_ram_cache depth_refine slack_scheduler = Inr s' \<and>
         n_cached_objects (m_ram_cache s') \<le> 11"
    using T [THEN conjunct2, rule_format] n by (auto simp: slack_scheduler_sel)
  have b: "purge_ram_cache depth_refine (set_ram_quad_limit 15 slack_scheduler) =
     Inr (set_ram_quad_limit 15 slack_scheduler)"
    using U [THEN conjunct1, rule_format] n15 by simp
  from t n a t15 b show ?thesis by (intro conjI)
qed

section \<open>Timeouts and the other setters\<close>

lemma set_purge_timeout_timer:
  "set_purge_timeout t s = Inr s' \<Longrightarrow> isActive (m_purge_timer s) \<Longrightarrow>
     m_purge_timeout s' = t \<and> m_purge_timer s' = start (to_int (m_update_timeout s)) (m_purge_timer s)"
  by (auto simp: set_purge_timeout_def Let_def split: if_splits)

text \<open>
  C4 (the code at the failing input): the purge timer is armed, the update timeout is
  100 ms, and \<open>set_purge_timeout(500)\<close> is called. The stored purge timeout becomes 500,
  and the purge timer is restarted with the interval 100, the update timeout, not 500.
\<close>

theorem set_purge_timeout_rearms_with_update_timeout:
  "map_sum id (\<lambda>s. (m_purge_timeout s, m_update_timeout s, m_purge_timer s))
     (set_purge_timeout 500 (timer_scheduler 100 2 True))
   = Inr (500, 100, \<lparr>isActive = True, interval = 100\<rparr>)"
  by (simp add: set_purge_timeout_def timer_scheduler_def int_max_def start_def to_int_def)

text \<open>
  The assertion of \<open>set_update_timeout\<close> is on the stored member, not on the argument:
  the call fails exactly when the timeout stored before the call is at least INT_MAX,
  and an argument that does not fit in an int is stored and given to the timer.
\<close>

lemma set_update_timeout_checks_member:
  "(set_update_timeout t s = Inl AssertionFailed) = (int_max \<le> unat (m_update_timeout s))"
  by (auto simp: set_update_timeout_def Let_def)

lemma set_update_timeout_accepts_any_argument:
  "map_sum id (\<lambda>s. (m_update_timeout s, m_update_timer s))
     (set_update_timeout 4294967295 (timer_scheduler 100 2 True))
   = Inr (4294967295, \<lparr>isActive = True, interval = - 1\<rparr>)"
  by (simp add: set_update_timeout_def timer_scheduler_def int_max_def start_def to_int_def)

text \<open>
  C8 (as stated, refuted): \<open>set_permissible_screen_space_error\<close> stores a negative
  error, and \<open>set_ram_quad_limit\<close> and \<open>set_gpu_quad_limit\<close> store 4294967295 (what a
  caller's -1 converts to), a RAM limit for which the threshold of \<open>purge_ram_cache\<close>
  does not fit in an unsigned. None of them has a check.
\<close>

theorem setters_accept_unchecked_values_counterexample:
  "m_permissible_screen_space_error (set_permissible_screen_space_error (- 1) (timer_scheduler 100 2 False))
     = - 1 \<and>
   m_ram_quad_limit (set_ram_quad_limit 4294967295 (timer_scheduler 100 2 False)) = 4294967295 \<and>
   m_capacity (m_ram_cache (set_ram_quad_limit 4294967295 (timer_scheduler 100 2 False))) = 4294967295 \<and>
   purge_threshold (m_ram_quad_limit (set_ram_quad_limit 4294967295 (timer_scheduler 100 2 False))) = None \<and>
   m_gpu_quad_limit (set_gpu_quad_limit 4294967295 (timer_scheduler 100 2 False)) = 4294967295"
  by (simp add: set_permissible_screen_space_error_def set_ram_quad_limit_def set_gpu_quad_limit_def
      timer_scheduler_def set_capacity_def purge_threshold_def round_to_float_def Let_def
      bit_length_0 bit_length_pos)

text \<open>
  C8 (amended): \<open>set_purge_timeout\<close> rejects, by an assertion on its argument before
  anything is stored, exactly the arguments that are at least INT_MAX, so every
  argument that does not fit in a signed int; an accepted argument is stored and
  converts to int unchanged. \<open>set_ram_quad_limit\<close>, \<open>set_gpu_quad_limit\<close>,
  \<open>set_permissible_screen_space_error\<close> and \<open>set_aabb_decorator\<close> check nothing and store
  every argument (the two limits also become the capacity of their cache).
\<close>

theorem setters_argument_checks:
  "(set_purge_timeout t s = Inl AssertionFailed) = (int_max \<le> unat t) \<and>
   (2 ^ 31 \<le> unat t \<longrightarrow> set_purge_timeout t s = Inl AssertionFailed) \<and>
   (unat t < int_max \<longrightarrow>
      (\<exists>s'. set_purge_timeout t s = Inr s' \<and> m_purge_timeout s' = t \<and> to_int t = int (unat t))) \<and>
   m_ram_quad_limit (set_ram_quad_limit n s) = n \<and>
   m_capacity (m_ram_cache (set_ram_quad_limit n s)) = unat n \<and>
   m_gpu_quad_limit (set_gpu_quad_limit n s) = n \<and>
   m_capacity (m_gpu_cached (set_gpu_quad_limit n s)) = unat n \<and>
   m_permissible_screen_space_error (set_permissible_screen_space_error e s) = e \<and>
   m_aabb_decorator (set_aabb_decorator d s) = d"
proof -
  have a: "(set_purge_timeout t s = Inl AssertionFailed) = (int_max \<le> unat t)"
    by (auto simp: set_purge_timeout_def Let_def)
  have b: "set_purge_timeout t s = Inl AssertionFailed" if "2 ^ 31 \<le> unat t"
    using that by (simp add: a int_max_def)
  have c: "\<exists>s'. set_purge_timeout t s = Inr s' \<and> m_purge_timeout s' = t \<and> to_int t = int (unat t)"
    if "unat t < int_max"
    using that by (simp add: set_purge_timeout_def Let_def to_int_def int_max_def)
  have d: "m_ram_quad_limit (set_ram_quad_limit n s) = n"
    "m_capacity (m_ram_cache (set_ram_quad_limit n s)) = unat n"
    "m_gpu_quad_limit (set_gpu_quad_limit n s) = n"
    "m_capacity (m_gpu_cached (set_gpu_quad_limit n s)) = unat n"
    "m_permissible_screen_space_error (set_permissible_screen_space_error e s) = e"
    "m_aabb_decorator (set_aabb_decorator d s) = d"
    by (simp_all add: set_ram_quad_limit_def set_gpu_quad_limit_def set_capacity_def
        set_permissible_screen_space_error_def set_aabb_decorator_def)
  from a b c d show ?thesis by (intro conjI impI)
qed

theorem setters_argument_checks_witness:
  "set_purge_timeout 2147483648 (timer_scheduler 100 2 False) = Inl AssertionFailed \<and>
   set_purge_timeout 2147483647 (timer_scheduler 100 2 False) = Inl AssertionFailed \<and>
   map_sum id m_purge_timeout (set_purge_timeout 2147483646 (timer_scheduler 100 2 False)) = Inr 2147483646"
proof -
  note T = setters_argument_checks [where s = "timer_scheduler 100 2 False" and n = 0 and e = 0
      and d = "\<lambda>i. ()"]
  have 1: "set_purge_timeout 2147483648 (timer_scheduler 100 2 False) = Inl AssertionFailed"
    using T [where t = 2147483648] by simp
  have 2: "set_purge_timeout 2147483647 (timer_scheduler 100 2 False) = Inl AssertionFailed"
    using T [where t = 2147483647] by (simp add: int_max_def)
  have 3: "map_sum id m_purge_timeout (set_purge_timeout 2147483646 (timer_scheduler 100 2 False))
             = Inr 2147483646"
    using T [where t = 2147483646] by (auto simp: int_max_def)
  from 1 2 3 show ?thesis by (intro conjI)
qed

section \<open>Theorems about Texture::setParams\<close>

text \<open>
  C9 (as stated, refuted): a RGBA8 texture asked for a nearest min filter and a mip-map
  mag filter satisfies both conditions of the claim (the format is neither R16UI nor
  CompressedRGBA8), and yet the first assertion of setParams fails.
\<close>

theorem setParams_mag_mipmap_counterexample:
  "spec_compatible RGBA8 Nearest MipMapLinear \<and>
   setParams Nearest MipMapLinear \<lparr>m_format = RGBA8, m_min_filter = Nearest, m_mag_filter = Nearest\<rparr>
     = Inl AssertionFailed"
  by (simp add: spec_compatible_def setParams_def)

text \<open>
  C9 (amended): setParams passes all its assertions exactly when the mag filter is not
  MipMapLinear, a CompressedRGBA8 texture is not given a MipMapLinear min filter, and a
  R16UI texture is given nearest min and mag filtering; it then stores both filters and
  leaves the format alone. In particular every accepted call satisfies the conditions of
  the specification.
\<close>

theorem setParams_accepts_iff:
  "(setParams min_filter mag_filter t =
      Inr (t\<lparr>m_min_filter := min_filter, m_mag_filter := mag_filter\<rparr>)) =
     (mag_filter \<noteq> MipMapLinear \<and>
      (m_format t \<noteq> CompressedRGBA8 \<or> min_filter \<noteq> MipMapLinear) \<and>
      (m_format t \<noteq> R16UI \<or> (min_filter = Nearest \<and> mag_filter = Nearest))) \<and>
   (setParams min_filter mag_filter t = Inl AssertionFailed) =
     (setParams min_filter mag_filter t \<noteq>
        Inr (t\<lparr>m_min_filter := min_filter, m_mag_filter := mag_filter\<rparr>)) \<and>
   (\<exists>t'. setParams min_filter mag_filter t = Inr t') =
     (spec_compatible (m_format t) min_filter mag_filter \<and> mag_filter \<noteq> MipMapLinear)"
  by (auto simp: setParams_def spec_compatible_def)

theorem setParams_accepts_iff_witness:
  "setParams Nearest Nearest \<lparr>m_format = R16UI, m_min_filter = Linear, m_mag_filter = Linear\<rparr>
     = Inr \<lparr>m_format = R16UI, m_min_filter = Nearest, m_mag_filter = Nearest\<rparr> \<and>
   setParams MipMapLinear Linear \<lparr>m_format = RGBA8, m_min_filter = Nearest, m_mag_filter = Nearest\<rparr>
     = Inr \<lparr>m_format = RGBA8, m_min_filter = MipMapLinear, m_mag_filter = Linear\<rparr> \<and>
   setParams MipMapLinear Linear
       \<lparr>m_format = CompressedRGBA8, m_min_filter = Nearest, m_mag_filter = Nearest\<rparr>
     = Inl AssertionFailed"
  using setParams_accepts_iff
      [of Nearest Nearest "\<lparr>m_format = R16UI, m_min_filter = Linear, m_mag_filter = Linear\<rparr>"]
    setParams_accepts_iff
      [of MipMapLinear Linear "\<lparr>m_format = RGBA8, m_min_filter = Nearest, m_mag_filter = Nearest\<rparr>"]
    setParams_accepts_iff
      [of MipMapLinear Linear
          "\<lparr>m_format = CompressedRGBA8, m_min_filter = Nearest, m_mag_filter = Nearest\<rparr>"]
  by simp

end
